theory Spec2Isabelle
  imports Complex_Main "HOL-Library.Log_Nat"
begin

section \<open>Python values used by \<open>data_gen.py\<close>\<close>

text \<open>
  A Python \<open>str\<close> is a sequence of Unicode code points; it is modelled as the list of
  its code points, because \<open>chr(65 + i)\<close> in the samplers leaves the 8-bit range of
  HOL's \<open>char\<close>.  The source's string literals are all ASCII and are written
  \<open>lit ''...''\<close>.
\<close>

type_synonym pystr = "nat list"

definition lit :: "string \<Rightarrow> pystr" where
  "lit s = map of_char s"

text \<open>The built-in exceptions that the modelled code can raise.\<close>

datatype py_error = KeyError | ValueError | ZeroDivisionError

text \<open>\<open>chr(n)\<close>: the one-character string of code point \<open>n\<close>; outside
  \<open>range(0x110000)\<close> it raises \<open>ValueError\<close>.\<close>

definition chr :: "int \<Rightarrow> py_error + pystr" where
  "chr n = (if 0 \<le> n \<and> n < 1114112 then Inr [nat n] else Inl ValueError)"

subsection \<open>Floats\<close>

text \<open>
  A Python \<open>float\<close> is an IEEE 754 binary64 number.  A finite float is represented by
  the rational it denotes, and every arithmetic operation rounds its exact result to the
  nearest float, ties to even (\<open>round64\<close>).  Infinities, NaN and the sign of zero are
  not modelled: the samplers only produce magnitudes far below \<open>2 ^ 1024\<close>.
\<close>

definition round_half_even :: "rat \<Rightarrow> int" where
  "round_half_even x =
     (let f = \<lfloor>x\<rfloor>; r = x - of_int f
      in if r < 1 / 2 then f else if 1 / 2 < r then f + 1 else if even f then f else f + 1)"

text \<open>The binary exponent \<open>\<lfloor>log\<^sub>2 \<bar>x\<bar>\<rfloor>\<close> of a nonzero rational.\<close>

definition ilog2 :: "rat \<Rightarrow> int" where
  "ilog2 x = (if 1 \<le> \<bar>x\<bar> then bitlen \<lfloor>\<bar>x\<bar>\<rfloor> - 1 else - bitlen (\<lceil>1 / \<bar>x\<bar>\<rceil> - 1))"

text \<open>Rounding to 53 significant bits; below \<open>2 ^ -1022\<close> the spacing stays
  \<open>2 ^ -1074\<close> (subnormal numbers).\<close>

definition round64 :: "rat \<Rightarrow> rat" where
  "round64 x =
     (if x = 0 then 0
      else let e = max (ilog2 x) (- 1022); q = 2 powi (e - 52)
           in of_int (round_half_even (x / q)) * q)"

text \<open>A float literal such as \<open>0.3\<close> denotes the float nearest to the decimal.\<close>

definition flt :: "rat \<Rightarrow> rat" where
  "flt d = round64 d"

text \<open>Conversion of an \<open>int\<close> operand in mixed arithmetic, and the float operations.\<close>

definition float_of_int :: "int \<Rightarrow> rat" where
  "float_of_int n = round64 (of_int n)"

definition fadd :: "rat \<Rightarrow> rat \<Rightarrow> rat" where
  "fadd x y = round64 (x + y)"

definition fmul :: "rat \<Rightarrow> rat \<Rightarrow> rat" where
  "fmul x y = round64 (x * y)"

definition fdiv :: "rat \<Rightarrow> rat \<Rightarrow> py_error + rat" where
  "fdiv x y = (if y = 0 then Inl ZeroDivisionError else Inr (round64 (x / y)))"

text \<open>\<open>str(n)\<close> for an integer, as used by the f-string in \<open>load_scenario\<close>.\<close>

fun digits :: "nat \<Rightarrow> pystr" where
  "digits n = (if n < 10 then [48 + n] else digits (n div 10) @ [48 + n mod 10])"

declare digits.simps [simp del]

definition str_int :: "int \<Rightarrow> pystr" where
  "str_int n = (if n < 0 then 45 # digits (nat (- n)) else digits (nat n))"

section \<open>The preset table\<close>

text \<open>One value of the \<open>presets\<close> dictionary (source lines 16--37).\<close>

record preset =
  metric_type :: pystr
  distribution :: pystr
  variance :: pystr
  paths :: int
  samples :: int
  description :: pystr
  expected_test :: pystr

definition mk_preset ::
  "string \<Rightarrow> string \<Rightarrow> string \<Rightarrow> int \<Rightarrow> int \<Rightarrow> string \<Rightarrow> string \<Rightarrow> preset" where
  "mk_preset m d v p s de e =
     \<lparr>metric_type = lit m, distribution = lit d, variance = lit v, paths = p,
      samples = s, description = lit de, expected_test = lit e\<rparr>"

definition presets_items :: "(int \<times> preset) list" where
  "presets_items =
   [(1, mk_preset ''Continuous'' ''Normal'' ''Equal'' 2 1000 ''t-test'' ''t-test''),
    (2, mk_preset ''Continuous'' ''Normal'' ''Unequal'' 2 1000
          ''Welch's t-test'' ''Welch's t-test''),
    (3, mk_preset ''Continuous'' ''Skewed'' ''Equal'' 2 1000 ''Mann-Whitney'' ''Mann-Whitney''),
    (4, mk_preset ''Continuous'' ''Skewed'' ''Unequal'' 2 1000 ''Mann-Whitney'' ''Mann-Whitney''),
    (5, mk_preset ''Continuous'' ''Normal'' ''Equal'' 4 1000 ''ANOVA'' ''ANOVA''),
    (6, mk_preset ''Continuous'' ''Normal'' ''Unequal'' 4 1000
          ''Welch's ANOVA'' ''Welch's ANOVA''),
    (7, mk_preset ''Continuous'' ''Skewed'' ''Equal'' 4 1000
          ''Kruskal-Wallis'' ''Kruskal-Wallis''),
    (8, mk_preset ''Continuous'' ''Skewed'' ''Unequal'' 4 1000
          ''Kruskal-Wallis'' ''Kruskal-Wallis''),
    (9, mk_preset ''Proportion'' ''Binary'' ''-'' 2 1000
          ''Two-Proportion Z-Test'' ''Two-Proportion Z-Test''),
    (10, mk_preset ''Proportion'' ''Binary'' ''-'' 4 1000 ''Chi-Square'' ''Chi-Square''),
    (11, mk_preset ''Categorical'' ''Uniform'' ''-'' 2 1000 ''Chi-Square'' ''Chi-Square''),
    (12, mk_preset ''Categorical'' ''Uniform'' ''-'' 4 1000 ''Chi-Square'' ''Chi-Square''),
    (13, mk_preset ''Continuous'' ''Normal'' ''Equal'' 2 1000
          ''t-test (duplicate)'' ''t-test (duplicate)''),
    (14, mk_preset ''Continuous'' ''Skewed'' ''Unequal'' 2 1000
          ''Mann-Whitney (duplicate)'' ''Mann-Whitney (duplicate)''),
    (15, mk_preset ''Proportion'' ''Binary'' ''-'' 2 1000
          ''Two-Proportion Z-Test (duplicate)'' ''Two-Proportion Z-Test (duplicate)''),
    (16, mk_preset ''Proportion'' ''Binary'' ''-'' 4 1000
          ''Chi-Square (duplicate)'' ''Chi-Square (duplicate)''),
    (17, mk_preset ''Continuous'' ''Normal'' ''Equal'' 4 1000
          ''ANOVA (confirm variance handling)'' ''ANOVA (confirm variance handling)''),
    (18, mk_preset ''Continuous'' ''Skewed'' ''Unequal'' 4 1000
          ''Kruskal-Wallis (reconfirm skew+variance)''
          ''Kruskal-Wallis (reconfirm skew+variance)''),
    (19, mk_preset ''Proportion'' ''Binary'' ''-'' 4 1000
          ''Chi-Square (retest large groups)'' ''Chi-Square (retest large groups)''),
    (20, mk_preset ''Categorical'' ''Uniform'' ''-'' 4 1000
          ''Chi-Square (multi-level categorical)'' ''Chi-Square (multi-level categorical)'')]"

text \<open>The dictionary itself: \<open>presets k = None\<close> is \<open>k not in presets\<close>.\<close>

definition presets :: "int \<rightharpoonup> preset" where
  "presets = map_of presets_items"

text \<open>The subscript \<open>presets[k]\<close>, which raises \<open>KeyError\<close> on a missing key.\<close>

definition presets_getitem :: "int \<Rightarrow> py_error + preset" where
  "presets_getitem k = (case presets k of None \<Rightarrow> Inl KeyError | Some p \<Rightarrow> Inr p)"

section \<open>Loading a preset into the session state\<close>

text \<open>
  The attributes of \<open>st.session_state\<close> that \<open>load_scenario\<close> assigns; \<open>None\<close> is
  an attribute that has not been set.
\<close>

record session_state =
  ss_current_scenario :: "int option"
  ss_num_paths :: "int option"
  ss_metric_type :: "pystr option"
  ss_sample_size_per_path :: "int option"
  ss_file_name :: "pystr option"
  ss_distribution_shape :: "pystr option"
  ss_variance_condition :: "pystr option"

definition empty_session :: session_state where
  "empty_session =
     \<lparr>ss_current_scenario = None, ss_num_paths = None, ss_metric_type = None,
      ss_sample_size_per_path = None, ss_file_name = None, ss_distribution_shape = None,
      ss_variance_condition = None\<rparr>"

definition load_scenario :: "int \<Rightarrow> session_state \<Rightarrow> py_error + session_state" where
  "load_scenario scenario_num st =
     (if presets scenario_num \<noteq> None then
        (case presets_getitem scenario_num of
           Inl e \<Rightarrow> Inl e
         | Inr preset \<Rightarrow>
             let st1 = st\<lparr>ss_current_scenario := Some scenario_num,
                          ss_num_paths := Some (paths preset),
                          ss_metric_type := Some (metric_type preset),
                          ss_sample_size_per_path := Some (samples preset),
                          ss_file_name := Some (lit ''test inputs/scenario'' @ str_int scenario_num
                                             @ lit ''.csv'')\<rparr>
             in if metric_type preset = lit ''Continuous''
                then Inr (st1\<lparr>ss_distribution_shape := Some (distribution preset),
                               ss_variance_condition := Some (variance preset)\<rparr>)
                else Inr st1)
      else Inr st)"

text \<open>
  The session state persists from one run of the script to the next, so a sequence of
  clicks on scenario buttons is a sequence of calls of \<open>load_scenario\<close> on it.
\<close>

fun load_scenarios :: "int list \<Rightarrow> session_state \<Rightarrow> py_error + session_state" where
  "load_scenarios [] st = Inr st"
| "load_scenarios (k # ks) st =
     (case load_scenario k st of Inl e \<Rightarrow> Inl e | Inr st' \<Rightarrow> load_scenarios ks st')"

section \<open>The random number generator\<close>

text \<open>
  \<open>numpy.random\<close> is a library outside the repository.  Its global generator is a state
  \<open>'g\<close> that every call reads and advances; what one draw from a given distribution
  returns is left to the parameter \<open>rng\<close>.  A \<open>dist\<close> names the distribution that a
  call asks for, with the arguments the sampler passes.
\<close>

datatype dist =
  Normal rat rat
| Gamma rat rat
| Binomial int rat
| Choice "pystr list" "rat list"

text \<open>A cell of the \<open>metric\<close> column: a float, an integer or a string.\<close>

datatype metric_value = Float rat | Integer int | Str pystr

type_synonym 'g rng = "dist \<Rightarrow> 'g \<Rightarrow> metric_value \<times> 'g"

text \<open>An array of \<open>size\<close> draws is \<open>size\<close> successive draws from the generator.\<close>

fun draws :: "('g \<Rightarrow> 'a \<times> 'g) \<Rightarrow> nat \<Rightarrow> 'g \<Rightarrow> 'a list \<times> 'g" where
  "draws d 0 g = ([], g)"
| "draws d (Suc n) g =
     (case d g of (v, g1) \<Rightarrow> (case draws d n g1 of (vs, g2) \<Rightarrow> (v # vs, g2)))"

text \<open>
  The argument checks of the four numpy calls, each of which raises \<open>ValueError\<close>:
  a negative \<open>size\<close>, a negative scale or shape, a probability outside \<open>[0, 1]\<close>, and
  for \<open>choice\<close> an empty population, a \<open>p\<close> of another length, a negative entry or a sum
  further than \<open>sqrt(eps) = 2 ^ -26\<close> from 1.
\<close>

definition dist_ok :: "dist \<Rightarrow> bool" where
  "dist_ok d =
     (case d of
        Normal loc scale \<Rightarrow> 0 \<le> scale
      | Gamma shape scale \<Rightarrow> 0 \<le> shape \<and> 0 \<le> scale
      | Binomial n p \<Rightarrow> 0 \<le> n \<and> 0 \<le> p \<and> p \<le> 1
      | Choice a p \<Rightarrow> a \<noteq> [] \<and> length p = length a \<and> list_all (\<lambda>w. 0 \<le> w) p
                      \<and> \<bar>sum_list p - 1\<bar> \<le> 1 / 2 ^ 26)"

definition np_random :: "'g rng \<Rightarrow> dist \<Rightarrow> int \<Rightarrow> 'g \<Rightarrow> py_error + (metric_value list \<times> 'g)" where
  "np_random rng d sz g =
     (if \<not> dist_ok d \<or> sz < 0 then Inl ValueError
      else Inr (draws (rng d) (nat sz) g))"

text \<open>
  What numpy documents about the value of one draw: a float for \<open>normal\<close> and
  \<open>gamma\<close>, an integer between 0 and \<open>n\<close> for \<open>binomial\<close>, an element of the
  population for \<open>choice\<close>.
\<close>

definition draw_ok :: "dist \<Rightarrow> metric_value \<Rightarrow> bool" where
  "draw_ok d v =
     (case d of
        Normal loc scale \<Rightarrow> (case v of Float x \<Rightarrow> True | _ \<Rightarrow> False)
      | Gamma shape scale \<Rightarrow> (case v of Float x \<Rightarrow> True | _ \<Rightarrow> False)
      | Binomial n p \<Rightarrow> (case v of Integer k \<Rightarrow> 0 \<le> k \<and> k \<le> n | _ \<Rightarrow> False)
      | Choice a p \<Rightarrow> (case v of Str s \<Rightarrow> s \<in> set a | _ \<Rightarrow> False))"

definition numpy_contract :: "'g rng \<Rightarrow> bool" where
  "numpy_contract rng = (\<forall>d g. dist_ok d \<longrightarrow> draw_ok d (fst (rng d g)))"

section \<open>The samplers\<close>

text \<open>One dictionary appended to \<open>data\<close>; the data frame is the list of these rows.\<close>

record row =
  user_id :: int
  group :: pystr
  metric :: metric_value

text \<open>
  The inner loop \<open>for value in values\<close> of the three samplers: it appends one row per
  value and increments \<open>user_id_counter\<close>.
\<close>

fun append_records :: "metric_value list \<Rightarrow> pystr \<Rightarrow> row list \<Rightarrow> int \<Rightarrow> row list \<times> int" where
  "append_records [] group_name data user_id_counter = (data, user_id_counter)"
| "append_records (v # values) group_name data user_id_counter =
     append_records values group_name
       (data @ [\<lparr>user_id = user_id_counter, group = group_name, metric = v\<rparr>])
       (user_id_counter + 1)"

text \<open>
  \<open>generate_continuous_data\<close> (source lines 54--91).  The loop
  \<open>for i in range(num_paths)\<close> is the recursion on \<open>i\<close>; \<open>data\<close>,
  \<open>user_id_counter\<close> and the generator state are passed along.
\<close>

function continuous_loop ::
  "'g rng \<Rightarrow> int \<Rightarrow> int \<Rightarrow> pystr \<Rightarrow> pystr \<Rightarrow> pystr \<Rightarrow> int \<Rightarrow> row list \<Rightarrow> int \<Rightarrow> 'g
   \<Rightarrow> py_error + (row list \<times> 'g)" where
  "continuous_loop rng num_paths sample_size_per_path distribution_shape variance_condition
     group_prefix i data user_id_counter g =
     (if i < num_paths then
        (case chr (65 + i) of
           Inl e \<Rightarrow> Inl e
         | Inr c \<Rightarrow>
             let group_name = group_prefix @ lit '' '' @ c in
             (case
                (if distribution_shape = lit ''Normal'' then
                   (if variance_condition = lit ''Equal'' then
                      np_random rng (Normal (float_of_int 50) (float_of_int 10))
                        sample_size_per_path g
                    else
                      let base_mean = 50 + (i * 10);
                          base_std = 10 + (i * 5)
                      in np_random rng (Normal (float_of_int base_mean) (float_of_int base_std))
                           sample_size_per_path g)
                 else
                   (if variance_condition = lit ''Equal'' then
                      np_random rng (Gamma (float_of_int 2) (float_of_int 10))
                        sample_size_per_path g
                    else
                      let shape = fadd (float_of_int 2) (fmul (float_of_int i) (flt (5 / 10)));
                          scale = 10 + (i * 5)
                      in np_random rng (Gamma shape (float_of_int scale))
                           sample_size_per_path g))
              of
                Inl e \<Rightarrow> Inl e
              | Inr (values, g') \<Rightarrow>
                  (case append_records values group_name data user_id_counter of
                     (data', user_id_counter') \<Rightarrow>
                       continuous_loop rng num_paths sample_size_per_path distribution_shape
                         variance_condition group_prefix (i + 1) data' user_id_counter' g')))
      else Inr (data, g))"
  by pat_completeness auto
termination
  by (relation "measure (\<lambda>(rng, num_paths, n, ds, vc, gp, i, data, uid, g). nat (num_paths - i))")
     auto

declare continuous_loop.simps [simp del]

definition generate_continuous_data ::
  "'g rng \<Rightarrow> int \<Rightarrow> int \<Rightarrow> pystr \<Rightarrow> pystr \<Rightarrow> pystr \<Rightarrow> 'g \<Rightarrow> py_error + (row list \<times> 'g)" where
  "generate_continuous_data rng num_paths sample_size_per_path distribution_shape
     variance_condition group_prefix g =
     continuous_loop rng num_paths sample_size_per_path distribution_shape variance_condition
       group_prefix 0 [] 1 g"

text \<open>\<open>generate_proportion_data\<close> (source lines 93--116).\<close>

function proportion_loop ::
  "'g rng \<Rightarrow> int \<Rightarrow> int \<Rightarrow> pystr \<Rightarrow> int \<Rightarrow> row list \<Rightarrow> int \<Rightarrow> 'g \<Rightarrow> py_error + (row list \<times> 'g)" where
  "proportion_loop rng num_paths sample_size_per_path group_prefix i data user_id_counter g =
     (if i < num_paths then
        (case chr (65 + i) of
           Inl e \<Rightarrow> Inl e
         | Inr c \<Rightarrow>
             let group_name = group_prefix @ lit '' '' @ c;
                 probability = fadd (flt (3 / 10)) (fmul (float_of_int i) (flt (2 / 10)));
                 probability = min probability (flt (9 / 10))
             in
             (case np_random rng (Binomial 1 probability) sample_size_per_path g of
                Inl e \<Rightarrow> Inl e
              | Inr (values, g') \<Rightarrow>
                  (case append_records values group_name data user_id_counter of
                     (data', user_id_counter') \<Rightarrow>
                       proportion_loop rng num_paths sample_size_per_path group_prefix (i + 1)
                         data' user_id_counter' g')))
      else Inr (data, g))"
  by pat_completeness auto
termination
  by (relation "measure (\<lambda>(rng, num_paths, n, gp, i, data, uid, g). nat (num_paths - i))") auto

declare proportion_loop.simps [simp del]

definition generate_proportion_data ::
  "'g rng \<Rightarrow> int \<Rightarrow> int \<Rightarrow> pystr \<Rightarrow> 'g \<Rightarrow> py_error + (row list \<times> 'g)" where
  "generate_proportion_data rng num_paths sample_size_per_path group_prefix g =
     proportion_loop rng num_paths sample_size_per_path group_prefix 0 [] 1 g"

text \<open>\<open>generate_categorical_data\<close> (source lines 118--152).\<close>

definition categories :: "pystr list" where
  "categories =
     [lit ''Red'', lit ''Blue'', lit ''Green'', lit ''Yellow'', lit ''Purple'', lit ''Orange'']"

text \<open>The \<open>if\<close>/\<open>elif\<close> chain that picks the weight list of group \<open>i\<close>.\<close>

definition group_weights :: "int \<Rightarrow> rat list" where
  "group_weights i =
     (if i = 0 then map flt [4 / 10, 3 / 10, 2 / 10, 1 / 10, 0, 0]
      else if i = 1 then map flt [1 / 10, 2 / 10, 4 / 10, 3 / 10, 0, 0]
      else if i = 2 then map flt [0, 1 / 10, 2 / 10, 3 / 10, 4 / 10, 0]
      else map flt [1 / 10, 1 / 10, 1 / 10, 1 / 10, 3 / 10, 3 / 10])"

text \<open>\<open>sum(weights)\<close> adds from the left, starting at the integer 0.\<close>

definition py_sum :: "rat list \<Rightarrow> rat" where
  "py_sum ws = foldl fadd 0 ws"

text \<open>The comprehension \<open>[w / sum(weights) for w in weights]\<close>.\<close>

fun divide_all :: "rat list \<Rightarrow> rat \<Rightarrow> py_error + rat list" where
  "divide_all [] s = Inr []"
| "divide_all (w # ws) s =
     (case fdiv w s of
        Inl e \<Rightarrow> Inl e
      | Inr q \<Rightarrow> (case divide_all ws s of Inl e \<Rightarrow> Inl e | Inr qs \<Rightarrow> Inr (q # qs)))"

text \<open>The two statements under the comment \<open>Normalize weights\<close> (lines 138--139).\<close>

definition normalize_weights :: "rat list \<Rightarrow> py_error + rat list" where
  "normalize_weights weights0 =
     (let weights = take (nat (min (int (length categories)) 6)) weights0
      in divide_all weights (py_sum weights))"

function categorical_loop ::
  "'g rng \<Rightarrow> int \<Rightarrow> int \<Rightarrow> pystr \<Rightarrow> int \<Rightarrow> row list \<Rightarrow> int \<Rightarrow> 'g \<Rightarrow> py_error + (row list \<times> 'g)" where
  "categorical_loop rng num_paths sample_size_per_path group_prefix i data user_id_counter g =
     (if i < num_paths then
        (case chr (65 + i) of
           Inl e \<Rightarrow> Inl e
         | Inr c \<Rightarrow>
             let group_name = group_prefix @ lit '' '' @ c in
             (case normalize_weights (group_weights i) of
                Inl e \<Rightarrow> Inl e
              | Inr weights \<Rightarrow>
                  (case np_random rng (Choice (take (length weights) categories) weights)
                          sample_size_per_path g of
                     Inl e \<Rightarrow> Inl e
                   | Inr (values, g') \<Rightarrow>
                       (case append_records values group_name data user_id_counter of
                          (data', user_id_counter') \<Rightarrow>
                            categorical_loop rng num_paths sample_size_per_path group_prefix
                              (i + 1) data' user_id_counter' g'))))
      else Inr (data, g))"
  by pat_completeness auto
termination
  by (relation "measure (\<lambda>(rng, num_paths, n, gp, i, data, uid, g). nat (num_paths - i))") auto

declare categorical_loop.simps [simp del]

definition generate_categorical_data ::
  "'g rng \<Rightarrow> int \<Rightarrow> int \<Rightarrow> pystr \<Rightarrow> 'g \<Rightarrow> py_error + (row list \<times> 'g)" where
  "generate_categorical_data rng num_paths sample_size_per_path group_prefix g =
     categorical_loop rng num_paths sample_size_per_path group_prefix 0 [] 1 g"

section \<open>Validation and the generate button\<close>

text \<open>The code points for which \<open>str.isspace\<close> holds; \<open>strip()\<close> removes them from
  both ends.\<close>

definition py_isspace :: "nat \<Rightarrow> bool" where
  "py_isspace c =
     ((9 \<le> c \<and> c \<le> 13) \<or> (28 \<le> c \<and> c \<le> 32) \<or> c = 133 \<or> c = 160 \<or> c = 5760
      \<or> (8192 \<le> c \<and> c \<le> 8202) \<or> c = 8232 \<or> c = 8233 \<or> c = 8239 \<or> c = 8287
      \<or> c = 12288)"

definition strip :: "pystr \<Rightarrow> pystr" where
  "strip s = rev (dropWhile py_isspace (rev (dropWhile py_isspace s)))"

definition endswith :: "pystr \<Rightarrow> pystr \<Rightarrow> bool" where
  "endswith s suffix =
     (length suffix \<le> length s \<and> drop (length s - length suffix) s = suffix)"

text \<open>\<open>validate_inputs\<close> (source lines 154--172) returns the list of messages.\<close>

definition validate_inputs :: "int \<Rightarrow> int \<Rightarrow> pystr \<Rightarrow> pystr \<Rightarrow> pystr list" where
  "validate_inputs num_paths sample_size_per_path group_prefix file_name =
     (let errors = [];
          errors = (if num_paths \<le> 0
                    then errors @ [lit ''Number of Paths must be greater than 0'']
                    else errors);
          errors = (if sample_size_per_path \<le> 0
                    then errors @ [lit ''Sample Size Per Path must be greater than 0'']
                    else errors);
          errors = (if strip group_prefix = []
                    then errors @ [lit ''Group Label Prefix cannot be empty'']
                    else errors);
          errors = (if strip file_name = []
                    then errors @ [lit ''File Name cannot be empty'']
                    else if \<not> endswith file_name (lit ''.csv'')
                    then errors @ [lit ''File Name must end with .csv'']
                    else errors)
      in errors)"

text \<open>
  The body of \<open>if st.button("Generate Synthetic Data")\<close> in \<open>main\<close> (source lines
  290--313), up to the data frame: the inputs are validated first; with errors the messages
  are shown (\<open>Inl\<close>) and no sampler is called, otherwise the sampler chosen by
  \<open>metric_type\<close> runs.  The variable \<open>metric_type\<close> of the source is \<open>mtype\<close> here.
\<close>

definition generate_button ::
  "'g rng \<Rightarrow> int \<Rightarrow> int \<Rightarrow> pystr \<Rightarrow> pystr \<Rightarrow> pystr \<Rightarrow> pystr \<Rightarrow> pystr \<Rightarrow> 'g
   \<Rightarrow> pystr list + (py_error + (row list \<times> 'g))" where
  "generate_button rng num_paths sample_size_per_path group_prefix file_name mtype
     distribution_shape variance_condition g =
     (let errors = validate_inputs num_paths sample_size_per_path group_prefix file_name
      in if errors \<noteq> [] then Inl errors
         else if mtype = lit ''Continuous'' then
           Inr (generate_continuous_data rng num_paths sample_size_per_path distribution_shape
                  variance_condition group_prefix g)
         else if mtype = lit ''Proportion'' then
           Inr (generate_proportion_data rng num_paths sample_size_per_path group_prefix g)
         else
           Inr (generate_categorical_data rng num_paths sample_size_per_path group_prefix g))"

section \<open>Specification-level descriptions\<close>

text \<open>
  The definitions of this section follow the words of the specification, not the source;
  the theorems below compare the samplers with them.
\<close>

text \<open>GroupNamer: \<open>"{prefix} {letter}"\<close> with \<open>letter = 'A' + index\<close>.\<close>

definition group_namer :: "pystr \<Rightarrow> nat \<Rightarrow> pystr" where
  "group_namer prefix index = prefix @ [32] @ [65 + index]"

text \<open>
  Dataset: for each group index in order, \<open>n\<close> draws from that group's distribution
  \<open>D i\<close>, stored unchanged as the metric of \<open>n\<close> consecutive rows; the user ids continue
  from one group to the next.  \<open>spec_blocks\<close> builds the blocks of \<open>k\<close> groups from index
  \<open>i\<close> on, the first id being \<open>uid\<close>.
\<close>

definition spec_block :: "pystr \<Rightarrow> nat \<Rightarrow> int \<Rightarrow> metric_value list \<Rightarrow> row list" where
  "spec_block prefix i uid vs =
     map (\<lambda>(j, v). \<lparr>user_id = uid + int j, group = group_namer prefix i, metric = v\<rparr>)
       (enumerate 0 vs)"

fun spec_blocks ::
  "'g rng \<Rightarrow> (nat \<Rightarrow> dist) \<Rightarrow> nat \<Rightarrow> pystr \<Rightarrow> nat \<Rightarrow> nat \<Rightarrow> int \<Rightarrow> 'g \<Rightarrow> row list \<times> 'g" where
  "spec_blocks rng D n prefix i 0 uid g = ([], g)"
| "spec_blocks rng D n prefix i (Suc k) uid g =
     (case draws (rng (D i)) n g of
        (vs, g1) \<Rightarrow>
          (case spec_blocks rng D n prefix (Suc i) k (uid + int n) g1 of
             (rest, g2) \<Rightarrow> (spec_block prefix i uid vs @ rest, g2)))"

definition spec_dataset ::
  "'g rng \<Rightarrow> (nat \<Rightarrow> dist) \<Rightarrow> nat \<Rightarrow> nat \<Rightarrow> pystr \<Rightarrow> 'g \<Rightarrow> row list \<times> 'g" where
  "spec_dataset rng D k n prefix g = spec_blocks rng D n prefix 0 k 1 g"

text \<open>The distribution of group \<open>i\<close> in the continuous sampler, as the specification
  tabulates it, in exact arithmetic.\<close>

definition spec_continuous_dist :: "pystr \<Rightarrow> pystr \<Rightarrow> nat \<Rightarrow> dist" where
  "spec_continuous_dist shape var i =
     (if shape = lit ''Normal'' then
        (if var = lit ''Equal'' then Normal 50 10
         else Normal (50 + 10 * of_nat i) (10 + 5 * of_nat i))
      else
        (if var = lit ''Equal'' then Gamma 2 10
         else Gamma (2 + of_nat i / 2) (10 + 5 * of_nat i)))"

text \<open>The success probability of group \<open>i\<close>: the float written
  \<open>min(0.3 + 0.2 i, 0.9)\<close> in decimal.\<close>

definition spec_probability :: "nat \<Rightarrow> rat" where
  "spec_probability i = flt (min (3 / 10 + 2 / 10 * of_nat i) (9 / 10))"

text \<open>The weight vector of group \<open>i\<close> as the specification lists it.\<close>

definition spec_weights :: "nat \<Rightarrow> rat list" where
  "spec_weights i =
     (if i = 0 then map flt [4 / 10, 3 / 10, 2 / 10, 1 / 10, 0, 0]
      else if i = 1 then map flt [1 / 10, 2 / 10, 4 / 10, 3 / 10, 0, 0]
      else if i = 2 then map flt [0, 1 / 10, 2 / 10, 3 / 10, 4 / 10, 0]
      else map flt [1 / 10, 1 / 10, 1 / 10, 1 / 10, 3 / 10, 3 / 10])"

text \<open>
  The weights that reach \<open>choice\<close> after the division by the float sum: those of the
  specification, except that for group 0 each nonzero entry is one unit in the last place
  larger.
\<close>

definition sampled_weights :: "nat \<Rightarrow> rat list" where
  "sampled_weights i =
     (if i = 0 then
        [flt (4 / 10) + 1 / 2 ^ 54, flt (3 / 10) + 1 / 2 ^ 54, flt (2 / 10) + 1 / 2 ^ 55,
         flt (1 / 10) + 1 / 2 ^ 56, 0, 0]
      else spec_weights i)"


text \<open>The five configuration fields of a preset, without the test names.\<close>

definition config_of :: "preset \<Rightarrow> pystr \<times> pystr \<times> pystr \<times> int \<times> int" where
  "config_of p = (metric_type p, distribution p, variance p, paths p, samples p)"

section \<open>A deterministic generator\<close>

text \<open>
  A generator whose state is a counter, for evaluating the samplers on concrete inputs:
  the draw is a fixed function of the request and the counter.
\<close>

definition counter_rng :: "nat rng" where
  "counter_rng d g =
     (case d of
        Normal loc scale \<Rightarrow> (Float (loc + of_nat g * scale), Suc g)
      | Gamma shape scale \<Rightarrow> (Float (shape * scale + of_nat g), Suc g)
      | Binomial n p \<Rightarrow> (Integer (if 1 / 2 \<le> p then int g mod (n + 1) else 0), Suc g)
      | Choice a p \<Rightarrow> (Str (a ! (g mod length a)), Suc g))"

section \<open>The common shape of the three loops\<close>

text \<open>
  The three samplers differ only in the request made for group \<open>i\<close>.  \<open>group_loop\<close> is
  their loop with that request as the parameter \<open>dist_of\<close>; it serves the proofs.
\<close>

function group_loop ::
  "(int \<Rightarrow> py_error + dist) \<Rightarrow> 'g rng \<Rightarrow> int \<Rightarrow> int \<Rightarrow> pystr \<Rightarrow> int \<Rightarrow> row list \<Rightarrow> int \<Rightarrow> 'g
   \<Rightarrow> py_error + (row list \<times> 'g)" where
  "group_loop dist_of rng num_paths sample_size_per_path group_prefix i data user_id_counter g =
     (if i < num_paths then
        (case chr (65 + i) of
           Inl e \<Rightarrow> Inl e
         | Inr c \<Rightarrow>
             (case dist_of i of
                Inl e \<Rightarrow> Inl e
              | Inr d \<Rightarrow>
                  (case np_random rng d sample_size_per_path g of
                     Inl e \<Rightarrow> Inl e
                   | Inr (values, g') \<Rightarrow>
                       (case append_records values (group_prefix @ lit '' '' @ c) data
                               user_id_counter of
                          (data', user_id_counter') \<Rightarrow>
                            group_loop dist_of rng num_paths sample_size_per_path group_prefix
                              (i + 1) data' user_id_counter' g'))))
      else Inr (data, g))"
  by pat_completeness auto
termination
  by (relation "measure (\<lambda>(dist_of, rng, num_paths, n, gp, i, data, uid, g). nat (num_paths - i))")
     auto

declare group_loop.simps [simp del]

text \<open>The requests of the three samplers, as their loop bodies compute them.\<close>

definition continuous_dist :: "pystr \<Rightarrow> pystr \<Rightarrow> int \<Rightarrow> py_error + dist" where
  "continuous_dist distribution_shape variance_condition i =
     (if distribution_shape = lit ''Normal'' then
        (if variance_condition = lit ''Equal'' then
           Inr (Normal (float_of_int 50) (float_of_int 10))
         else Inr (Normal (float_of_int (50 + (i * 10))) (float_of_int (10 + (i * 5)))))
      else
        (if variance_condition = lit ''Equal'' then
           Inr (Gamma (float_of_int 2) (float_of_int 10))
         else Inr (Gamma (fadd (float_of_int 2) (fmul (float_of_int i) (flt (5 / 10))))
                     (float_of_int (10 + (i * 5))))))"

definition proportion_dist :: "int \<Rightarrow> py_error + dist" where
  "proportion_dist i =
     Inr (Binomial 1 (min (fadd (flt (3 / 10)) (fmul (float_of_int i) (flt (2 / 10))))
                        (flt (9 / 10))))"

definition categorical_dist :: "int \<Rightarrow> py_error + dist" where
  "categorical_dist i =
     (case normalize_weights (group_weights i) of
        Inl e \<Rightarrow> Inl e
      | Inr weights \<Rightarrow> Inr (Choice (take (length weights) categories) weights))"

section \<open>Facts about float rounding\<close>

lemma round_half_even_of_int: "round_half_even (of_int z) = z"
  by (simp add: round_half_even_def)

lemma round_half_even_ge_floor: "\<lfloor>x\<rfloor> \<le> round_half_even x"
  by (simp add: round_half_even_def Let_def)

lemma ilog2_lower:
  assumes "x \<noteq> 0"
  shows "2 powi (ilog2 x) \<le> \<bar>x\<bar>"
proof (cases "1 \<le> \<bar>x\<bar>")
  case True
  define f where "f = \<lfloor>\<bar>x\<bar>\<rfloor>"
  have f1: "1 \<le> f" using True by (simp add: f_def le_floor_iff)
  then have "0 < f" by simp
  from bitlen_bounds[OF this] have b: "2 ^ nat (bitlen f - 1) \<le> f" by simp
  have bl: "1 \<le> bitlen f" using \<open>0 < f\<close> bitlen_eq_zero_iff[of f] bitlen_nonneg[of f] by linarith
  have "2 powi (bitlen f - 1) = (2::rat) ^ nat (bitlen f - 1)"
    using bl by (simp add: power_int_def)
  also have "\<dots> = of_int (2 ^ nat (bitlen f - 1))" by simp
  also have "\<dots> \<le> of_int f" using b by (simp only: of_int_le_iff)
  also have "\<dots> \<le> \<bar>x\<bar>" by (simp add: f_def)
  finally show ?thesis using True by (simp add: ilog2_def f_def)
next
  case False
  define y where "y = 1 / \<bar>x\<bar>"
  have xpos: "0 < \<bar>x\<bar>" using assms by simp
  have y1: "1 < y" using False xpos by (simp add: y_def)
  define c where "c = \<lceil>y\<rceil> - 1"
  have cpos: "0 < c" using y1 by (simp add: c_def less_ceiling_iff)
  from bitlen_bounds[OF this] have "c < 2 ^ nat (bitlen c)" by simp
  then have "c + 1 \<le> 2 ^ nat (bitlen c)" by simp
  then have "(of_int (c + 1) :: rat) \<le> of_int (2 ^ nat (bitlen c))" by (simp only: of_int_le_iff)
  then have "(of_int \<lceil>y\<rceil> :: rat) \<le> 2 ^ nat (bitlen c)" by (simp add: c_def)
  moreover have "y \<le> of_int \<lceil>y\<rceil>" by simp
  ultimately have yb: "y \<le> 2 ^ nat (bitlen c)" by linarith
  have "2 powi (- bitlen c) = 1 / (2::rat) ^ nat (bitlen c)"
    using bitlen_nonneg[of c] by (simp add: power_int_def field_simps)
  also have "\<dots> \<le> 1 / y" using yb y1 by (simp add: field_simps)
  also have "\<dots> = \<bar>x\<bar>" by (simp add: y_def)
  finally show ?thesis using False by (simp add: ilog2_def c_def y_def)
qed

lemma ilog2_upper:
  assumes "x \<noteq> 0"
  shows "\<bar>x\<bar> < 2 powi (ilog2 x + 1)"
proof (cases "1 \<le> \<bar>x\<bar>")
  case True
  define f where "f = \<lfloor>\<bar>x\<bar>\<rfloor>"
  have f1: "1 \<le> f" using True by (simp add: f_def le_floor_iff)
  then have "0 < f" by simp
  from bitlen_bounds[OF this] have b: "f < 2 ^ nat (bitlen f)" by simp
  then have "f + 1 \<le> 2 ^ nat (bitlen f)" by simp
  then have "(of_int (f + 1) :: rat) \<le> of_int (2 ^ nat (bitlen f))" by (simp only: of_int_le_iff)
  then have "(of_int (f + 1) :: rat) \<le> 2 ^ nat (bitlen f)" by simp
  moreover have "\<bar>x\<bar> < of_int (f + 1)" unfolding f_def by linarith
  ultimately have "\<bar>x\<bar> < 2 ^ nat (bitlen f)" by linarith
  moreover have "2 powi (bitlen f) = (2::rat) ^ nat (bitlen f)"
    using bitlen_nonneg[of f] by (simp add: power_int_def)
  ultimately show ?thesis using True by (simp add: ilog2_def f_def)
next
  case False
  define y where "y = 1 / \<bar>x\<bar>"
  have xpos: "0 < \<bar>x\<bar>" using assms by simp
  have y1: "1 < y" using False xpos by (simp add: y_def)
  define c where "c = \<lceil>y\<rceil> - 1"
  have cpos: "0 < c" using y1 by (simp add: c_def less_ceiling_iff)
  have bl: "1 \<le> bitlen c" using cpos bitlen_eq_zero_iff[of c] bitlen_nonneg[of c] by linarith
  from bitlen_bounds[OF cpos] have "2 ^ nat (bitlen c - 1) \<le> c" by simp
  then have "(of_int (2 ^ nat (bitlen c - 1)) :: rat) \<le> of_int c" by (simp only: of_int_le_iff)
  then have "(2::rat) ^ nat (bitlen c - 1) \<le> of_int c" by simp
  moreover have "of_int c < y" unfolding c_def by linarith
  ultimately have yb: "2 ^ nat (bitlen c - 1) < y" by linarith
  have "\<bar>x\<bar> = 1 / y" by (simp add: y_def)
  also have "\<dots> < 1 / 2 ^ nat (bitlen c - 1)"
    using y1 by (intro divide_strict_left_mono[OF yb]) simp_all
  also have "\<dots> = 2 powi (- bitlen c + 1)"
    using bl by (simp add: power_int_def field_simps)
  finally show ?thesis using False by (simp add: ilog2_def c_def y_def)
qed


lemma round64_exact:
  assumes m: "\<bar>m\<bar> < 2 ^ 53" and j: "- 1074 \<le> j"
  shows "round64 (of_int m * 2 powi j) = of_int m * 2 powi j"
proof (cases "m = 0")
  case True
  then show ?thesis by (simp add: round64_def)
next
  case False
  define x :: rat where "x = of_int m * 2 powi j"
  have x0: "x \<noteq> 0" using False by (simp add: x_def)
  define e where "e = max (ilog2 x) (- 1022)"
  have "2 powi (ilog2 x) \<le> \<bar>x\<bar>" by (rule ilog2_lower[OF x0])
  also have "\<bar>x\<bar> = of_int \<bar>m\<bar> * 2 powi j" by (simp add: x_def abs_mult)
  also have "\<dots> < 2 ^ 53 * 2 powi j"
  proof -
    have "(of_int \<bar>m\<bar> :: rat) < of_int (2 ^ 53)" using m by (simp only: of_int_less_iff)
    then have "(of_int \<bar>m\<bar> :: rat) < 2 ^ 53" by simp
    then show ?thesis by (simp add: mult_strict_right_mono)
  qed
  also have "\<dots> = 2 powi (53 + j)" by (simp add: power_int_add)
  finally have lt: "(2::rat) powi (ilog2 x) < 2 powi (53 + j)" .
  have "ilog2 x < 53 + j"
  proof (rule ccontr)
    assume "\<not> ilog2 x < 53 + j"
    then have "(2::rat) powi (53 + j) \<le> 2 powi (ilog2 x)"
      by (intro power_int_increasing) simp_all
    with lt show False by simp
  qed
  then have ej: "0 \<le> j - e + 52" using j by (simp add: e_def)
  define z where "z = m * 2 ^ nat (j - e + 52)"
  have "x / 2 powi (e - 52) = of_int m * 2 powi (j - (e - 52))"
    by (simp add: x_def power_int_diff)
  also have "\<dots> = of_int m * 2 ^ nat (j - e + 52)"
    using ej by (simp add: power_int_def algebra_simps)
  also have "\<dots> = of_int z" by (simp add: z_def)
  finally have q: "x / 2 powi (e - 52) = of_int z" .
  have "round64 x = of_int (round_half_even (x / 2 powi (e - 52))) * 2 powi (e - 52)"
    using x0 by (simp add: round64_def Let_def e_def)
  also have "\<dots> = of_int z * 2 powi (e - 52)" by (simp only: q round_half_even_of_int)
  also have "\<dots> = x" using q[symmetric] by simp
  finally show ?thesis by (simp add: x_def)
qed

lemma round64_ge_1:
  assumes "1 \<le> x"
  shows "1 \<le> round64 x"
proof -
  have x0: "x \<noteq> 0" and ax: "\<bar>x\<bar> = x" using assms by auto
  define e where "e = ilog2 x"
  have fl: "1 \<le> \<lfloor>x\<rfloor>" using assms by (simp add: le_floor_iff)
  then have "bitlen \<lfloor>x\<rfloor> \<noteq> 0" using bitlen_eq_zero_iff[of "\<lfloor>x\<rfloor>"] by linarith
  then have e0: "0 \<le> e" using bitlen_nonneg[of "\<lfloor>x\<rfloor>"] assms by (simp add: e_def ilog2_def)
  have lo: "2 powi e \<le> x" using ilog2_lower[OF x0] ax by (simp add: e_def)
  define q :: rat where "q = 2 powi (e - 52)"
  have qpos: "0 < q" by (simp add: q_def)
  have "2 powi e / q = (2::rat) powi (e - (e - 52))"
    unfolding q_def by (subst power_int_diff) simp_all
  then have "2 powi e / q = (2::rat) ^ 52" by simp
  moreover have "2 powi e / q \<le> x / q" using lo qpos by (simp add: divide_right_mono)
  ultimately have "(of_int (2 ^ 52) :: rat) \<le> x / q" by simp
  then have "2 ^ 52 \<le> \<lfloor>x / q\<rfloor>" by (simp only: le_floor_iff)
  then have r: "2 ^ 52 \<le> round_half_even (x / q)"
    using round_half_even_ge_floor[of "x / q"] by linarith
  have "round64 x = of_int (round_half_even (x / q)) * q"
    using x0 e0 by (simp add: round64_def Let_def e_def q_def max_def)
  moreover have "(of_int (2 ^ 52) :: rat) \<le> of_int (round_half_even (x / q))"
    using r by (simp only: of_int_le_iff)
  then have "2 ^ 52 * q \<le> of_int (round_half_even (x / q)) * q"
    using qpos by (simp add: mult_right_mono)
  moreover have "2 ^ 52 * q = 2 powi e"
  proof -
    have "(2::rat) ^ 52 * q = 2 powi 52 * 2 powi (e - 52)" by (simp add: q_def)
    also have "\<dots> = 2 powi (52 + (e - 52))" by (subst power_int_add) simp_all
    finally show ?thesis by simp
  qed
  moreover have "(1::rat) \<le> 2 powi e" using e0 by (simp add: power_int_def)
  ultimately show ?thesis by linarith
qed

lemma float_of_int_exact: "\<bar>n\<bar> < 2 ^ 53 \<Longrightarrow> float_of_int n = of_int n"
  using round64_exact[of n 0] by (simp add: float_of_int_def)

lemma flt_half: "flt (5 / 10) = 1 / 2"
  using round64_exact[of 1 "- 1"] by (simp add: flt_def)

lemma gamma_shape_exact:
  assumes "0 \<le> i" "i < 2 ^ 40"
  shows "fadd (float_of_int 2) (fmul (float_of_int i) (flt (5 / 10))) = 2 + of_int i / 2"
proof -
  have a: "float_of_int i = of_int i" using assms by (intro float_of_int_exact) simp
  have b: "float_of_int 2 = 2" using float_of_int_exact[of 2] by simp
  have "fmul (of_int i) (1 / 2) = round64 (of_int i * 2 powi (- 1))"
    by (simp add: fmul_def)
  also have "\<dots> = of_int i * 2 powi (- 1)" using assms by (intro round64_exact) simp_all
  finally have c: "fmul (of_int i) (1 / 2) = of_int i / 2" by simp
  have "fadd 2 (of_int i / 2) = round64 (of_int (4 + i) * 2 powi (- 1))"
    by (simp add: fadd_def field_simps)
  also have "\<dots> = of_int (4 + i) * 2 powi (- 1)" using assms by (intro round64_exact) simp_all
  finally have d: "fadd 2 (of_int i / 2) = 2 + of_int i / 2" by (simp add: field_simps)
  show ?thesis by (simp only: a b c d flt_half)
qed

lemma continuous_dist_spec:
  assumes "0 \<le> i" "i < 2 ^ 40"
  shows "continuous_dist shape var i = Inr (spec_continuous_dist shape var (nat i))"
proof -
  have e1: "float_of_int 50 = 50" "float_of_int 10 = 10" "float_of_int 2 = 2"
    using float_of_int_exact[of 50] float_of_int_exact[of 10] float_of_int_exact[of 2] by simp_all
  have e2: "float_of_int (50 + i * 10) = 50 + 10 * of_int i"
    using assms by (subst float_of_int_exact) simp_all
  have e3: "float_of_int (10 + i * 5) = 10 + 5 * of_int i"
    using assms by (subst float_of_int_exact) simp_all
  have n: "(of_nat (nat i) :: rat) = of_int i" using assms by simp
  have g: "fadd 2 (fmul (float_of_int i) (flt (5 / 10))) = 2 + of_int i / 2"
    using gamma_shape_exact[OF assms] by (simp only: e1)
  show ?thesis
    unfolding continuous_dist_def spec_continuous_dist_def
    by (simp only: e1 e2 e3 g n) simp
qed


lemma proportion_large:
  assumes "5 \<le> i" "i < 2 ^ 40"
  shows "proportion_dist i = Inr (Binomial 1 (flt (9 / 10)))"
proof -
  have a: "float_of_int i = of_int i" using assms by (intro float_of_int_exact) simp
  have f2: "1 / 5 \<le> flt (2 / 10)" by code_simp
  have f3: "0 \<le> flt (3 / 10)" by code_simp
  have f9: "flt (9 / 10) \<le> 1" by code_simp
  have "1 \<le> (of_int i :: rat) * (1 / 5)" using assms by simp
  also have "\<dots> \<le> of_int i * flt (2 / 10)" using f2 assms by (intro mult_left_mono) simp_all
  finally have "1 \<le> fmul (of_int i) (flt (2 / 10))"
    unfolding fmul_def by (rule round64_ge_1)
  with f3 have "1 \<le> flt (3 / 10) + fmul (of_int i) (flt (2 / 10))" by linarith
  then have "1 \<le> fadd (flt (3 / 10)) (fmul (of_int i) (flt (2 / 10)))"
    unfolding fadd_def by (rule round64_ge_1)
  with f9 have "min (fadd (flt (3 / 10)) (fmul (of_int i) (flt (2 / 10)))) (flt (9 / 10))
      = flt (9 / 10)" by (simp add: min_def)
  then show ?thesis by (simp only: proportion_dist_def a)
qed

lemma spec_probability_large: "3 \<le> i \<Longrightarrow> spec_probability i = flt (9 / 10)"
proof -
  assume "3 \<le> i"
  then have "(3::rat) \<le> of_nat i" by (metis of_nat_le_iff of_nat_numeral)
  then have "min (3 / 10 + 2 / 10 * of_nat i) (9 / 10) = (9 / 10 :: rat)" by (simp add: min_def)
  then show ?thesis by (simp only: spec_probability_def)
qed

lemma proportion_small:
  "proportion_dist 0 = Inr (Binomial 1 (spec_probability 0))"
  "proportion_dist 1 = Inr (Binomial 1 (spec_probability 1))"
  "proportion_dist 2 = Inr (Binomial 1 (spec_probability 2))"
  "proportion_dist 3 = Inr (Binomial 1 (spec_probability 3))"
  "proportion_dist 4 = Inr (Binomial 1 (spec_probability 4))"
  by code_simp+

lemma proportion_dist_spec:
  assumes "0 \<le> i" "i < 2 ^ 40"
  shows "proportion_dist i = Inr (Binomial 1 (spec_probability (nat i)))"
proof (cases "5 \<le> i")
  case True
  then have "3 \<le> nat i" by simp
  then show ?thesis
    using proportion_large[OF True assms(2)] by (simp only: spec_probability_large)
next
  case False
  with assms(1) have "i = 0 \<or> i = 1 \<or> i = 2 \<or> i = 3 \<or> i = 4" by arith
  then show ?thesis
    using proportion_small by (elim disjE) simp_all
qed

lemma spec_probability_bounds: "0 \<le> spec_probability i \<and> spec_probability i \<le> 1"
proof (cases "3 \<le> i")
  case True
  have "0 \<le> flt (9 / 10) \<and> flt (9 / 10) \<le> 1" by code_simp
  then show ?thesis by (simp only: spec_probability_large[OF True])
next
  case False
  then have "i = 0 \<or> i = 1 \<or> i = 2" by arith
  moreover have "0 \<le> spec_probability 0 \<and> spec_probability 0 \<le> 1" by code_simp
  moreover have "0 \<le> spec_probability 1 \<and> spec_probability 1 \<le> 1" by code_simp
  moreover have "0 \<le> spec_probability 2 \<and> spec_probability 2 \<le> 1" by code_simp
  ultimately show ?thesis by (elim disjE) simp_all
qed

lemma spec_continuous_dist_ok: "dist_ok (spec_continuous_dist shape var i)"
  by (simp add: spec_continuous_dist_def dist_ok_def)

lemma normalize_0: "normalize_weights (group_weights 0) = Inr (sampled_weights 0)"
  by code_simp

lemma normalize_1: "normalize_weights (group_weights 1) = Inr (sampled_weights 1)"
  by code_simp

lemma normalize_2: "normalize_weights (group_weights 2) = Inr (sampled_weights 2)"
  by code_simp

lemma normalize_3: "normalize_weights (group_weights 3) = Inr (sampled_weights 3)"
  by code_simp

section \<open>The loops and the specification-level dataset\<close>

lemma append_records_eq:
  "append_records vs name data uid =
     (data @ map (\<lambda>(j, v). \<lparr>user_id = uid + int j, group = name, metric = v\<rparr>) (enumerate 0 vs),
      uid + int (length vs))"
proof (induction vs arbitrary: data uid)
  case Nil
  then show ?case by simp
next
  case (Cons v vs)
  show ?case
    by (simp add: Cons.IH enumerate_Suc_eq[of 0] case_prod_unfold comp_def algebra_simps)
qed

lemma length_draws: "length (fst (draws d n g)) = n"
proof (induction n arbitrary: g)
  case 0
  show ?case by simp
next
  case (Suc n)
  obtain v g1 where a: "d g = (v, g1)" by (cases "d g")
  obtain vs g2 where b: "draws d n g1 = (vs, g2)" by (cases "draws d n g1")
  from Suc[of g1] b have "length vs = n" by simp
  with a b show ?case by simp
qed

lemma continuous_step:
  "(if shape = lit ''Normal'' then
      (if var = lit ''Equal'' then
         np_random rng (Normal (float_of_int 50) (float_of_int 10)) n g
       else np_random rng (Normal (float_of_int (50 + (i * 10))) (float_of_int (10 + (i * 5)))) n g)
    else
      (if var = lit ''Equal'' then
         np_random rng (Gamma (float_of_int 2) (float_of_int 10)) n g
       else np_random rng (Gamma (fadd (float_of_int 2) (fmul (float_of_int i) (flt (5 / 10))))
                             (float_of_int (10 + (i * 5)))) n g))
   = (case continuous_dist shape var i of Inl e \<Rightarrow> Inl e | Inr d \<Rightarrow> np_random rng d n g)"
  by (simp only: continuous_dist_def sum.case split: if_splits) simp

lemma continuous_loop_eq:
  "continuous_loop rng num_paths n shape var prefix i data uid g =
     group_loop (continuous_dist shape var) rng num_paths n prefix i data uid g"
proof (induction "nat (num_paths - i)" arbitrary: i data uid g)
  case 0
  then have "\<not> i < num_paths" by simp
  then show ?case
    by (subst continuous_loop.simps, subst group_loop.simps) simp
next
  case (Suc k)
  then have lt: "i < num_paths" and k: "k = nat (num_paths - (i + 1))" by linarith+
  note IH = Suc.hyps(1)[OF k]
  show ?case
    apply (subst continuous_loop.simps)
    apply (subst group_loop.simps)
    apply (simp only: Let_def continuous_step IH)
    apply (simp split: sum.splits prod.splits)
    done
qed

lemma proportion_loop_eq:
  "proportion_loop rng num_paths n prefix i data uid g =
     group_loop proportion_dist rng num_paths n prefix i data uid g"
proof (induction "nat (num_paths - i)" arbitrary: i data uid g)
  case 0
  then have "\<not> i < num_paths" by simp
  then show ?case
    by (subst proportion_loop.simps, subst group_loop.simps) simp
next
  case (Suc k)
  then have lt: "i < num_paths" and k: "k = nat (num_paths - (i + 1))" by linarith+
  note IH = Suc.hyps(1)[OF k]
  show ?case
    apply (subst proportion_loop.simps)
    apply (subst group_loop.simps)
    apply (simp only: Let_def proportion_dist_def IH)
    apply (simp split: sum.splits prod.splits)
    done
qed

lemma categorical_loop_eq:
  "categorical_loop rng num_paths n prefix i data uid g =
     group_loop categorical_dist rng num_paths n prefix i data uid g"
proof (induction "nat (num_paths - i)" arbitrary: i data uid g)
  case 0
  then have "\<not> i < num_paths" by simp
  then show ?case
    by (subst categorical_loop.simps, subst group_loop.simps) simp
next
  case (Suc k)
  then have lt: "i < num_paths" and k: "k = nat (num_paths - (i + 1))" by linarith+
  note IH = Suc.hyps(1)[OF k]
  show ?case
    apply (subst categorical_loop.simps)
    apply (subst group_loop.simps)
    apply (simp only: Let_def categorical_dist_def IH)
    apply (simp split: sum.splits prod.splits)
    done
qed


lemma chr_ok: "0 \<le> i \<Longrightarrow> i < 1114047 \<Longrightarrow> chr (65 + i) = Inr [65 + nat i]"
  by (simp add: chr_def nat_add_distrib)

lemma chr_fail: "chr (65 + 1114047) = Inl ValueError"
  by (simp add: chr_def)

lemma group_loop_spec:
  assumes "0 \<le> i" "num_paths \<le> 1114047" "0 \<le> n"
    and "\<And>j. i \<le> j \<Longrightarrow> j < num_paths \<Longrightarrow> dist_of j = Inr (D (nat j)) \<and> dist_ok (D (nat j))"
  shows "group_loop dist_of rng num_paths n prefix i data uid g =
     (case spec_blocks rng D (nat n) prefix (nat i) (nat (num_paths - i)) uid g of
        (rows, g') \<Rightarrow> Inr (data @ rows, g'))"
  using assms
proof (induction "nat (num_paths - i)" arbitrary: i data uid g)
  case 0
  then have "\<not> i < num_paths" by simp
  then show ?case by (subst group_loop.simps) simp
next
  case (Suc k)
  then have lt: "i < num_paths" and k: "k = nat (num_paths - (i + 1))" by linarith+
  have i0: "0 \<le> i" by fact
  have c: "chr (65 + i) = Inr [65 + nat i]"
    using i0 lt Suc.prems(2) by (intro chr_ok) simp_all
  have d: "dist_of i = Inr (D (nat i))" and ok: "dist_ok (D (nat i))"
    using Suc.prems(4)[of i] lt by simp_all
  obtain vs g1 where dr: "draws (rng (D (nat i))) (nat n) g = (vs, g1)"
    by (cases "draws (rng (D (nat i))) (nat n) g")
  have len: "length vs = nat n" using length_draws[of "rng (D (nat i))" "nat n" g] dr by simp
  have np: "np_random rng (D (nat i)) n g = Inr (vs, g1)"
    using ok Suc.prems(3) dr by (simp add: np_random_def)
  have nm: "prefix @ lit '' '' @ [65 + nat i] = group_namer prefix (nat i)"
    by (simp add: group_namer_def lit_def)
  have sk: "nat (num_paths - i) = Suc k" using Suc.hyps(2) by simp
  have ni: "nat (i + 1) = Suc (nat i)" using i0 by simp
  have IH: "group_loop dist_of rng num_paths n prefix (i + 1) data' uid' g1 =
     (case spec_blocks rng D (nat n) prefix (Suc (nat i)) k uid' g1 of
        (rows, g') \<Rightarrow> Inr (data' @ rows, g'))" for data' uid'
    using Suc.hyps(1)[OF k, of data' uid' g1] i0 Suc.prems(2,3,4) ni k by simp
  show ?case
    apply (subst group_loop.simps)
    apply (simp only: lt if_True c d np sum.case prod.case append_records_eq nm IH sk
             spec_blocks.simps dr len spec_block_def)
    apply (simp add: nat_0_le[OF Suc.prems(3)] split: prod.splits)
    done
qed

lemma group_loop_too_many:
  assumes "0 \<le> i" "i \<le> 1114047" "1114047 < num_paths" "0 \<le> n"
    and "\<And>j. i \<le> j \<Longrightarrow> j < 1114047 \<Longrightarrow> \<exists>d. dist_of j = Inr d \<and> dist_ok d"
  shows "group_loop dist_of rng num_paths n prefix i data uid g = Inl ValueError"
  using assms
proof (induction "nat (1114047 - i)" arbitrary: i data uid g)
  case 0
  then have i: "i = 1114047" by simp
  show ?case using 0(4) unfolding i
    by (subst group_loop.simps) (simp add: chr_def)
next
  case (Suc k)
  then have lt: "i < 1114047" and k: "k = nat (1114047 - (i + 1))" by linarith+
  have lt2: "i < num_paths" using lt Suc.prems(3) by simp
  have c: "chr (65 + i) = Inr [65 + nat i]" using Suc.prems(1) lt by (rule chr_ok)
  obtain d where d: "dist_of i = Inr d" and ok: "dist_ok d"
    using Suc.prems(5)[of i] lt by auto
  obtain vs g1 where dr: "draws (rng d) (nat n) g = (vs, g1)"
    by (cases "draws (rng d) (nat n) g")
  have np: "np_random rng d n g = Inr (vs, g1)"
    using ok Suc.prems(4) dr by (simp add: np_random_def)
  have IH: "group_loop dist_of rng num_paths n prefix (i + 1) data' uid' g1 = Inl ValueError"
    for data' uid'
    using Suc.hyps(1)[OF k, of data' uid' g1] Suc.prems lt by simp
  show ?case
    apply (subst group_loop.simps)
    apply (simp only: lt2 if_True c d np sum.case prod.case append_records_eq IH)
    done
qed




lemma spec_block_metrics: "map metric (spec_block prefix i uid vs) = vs"
  by (rule nth_equalityI) (simp_all add: spec_block_def nth_enumerate_eq)




lemma draws_ok:
  assumes "numpy_contract rng" "dist_ok d"
  shows "\<forall>v \<in> set (fst (draws (rng d) n g)). draw_ok d v"
proof (induction n arbitrary: g)
  case 0
  show ?case by simp
next
  case (Suc n)
  obtain v g1 where a: "rng d g = (v, g1)" by (cases "rng d g")
  obtain vs g2 where b: "draws (rng d) n g1 = (vs, g2)" by (cases "draws (rng d) n g1")
  have "draw_ok d (fst (rng d g))" using assms by (simp add: numpy_contract_def)
  then have "draw_ok d v" using a by simp
  moreover have "\<forall>v \<in> set vs. draw_ok d v" using Suc[of g1] b by simp
  ultimately show ?case using a b by simp
qed

lemma spec_blocks_metrics:
  assumes "numpy_contract rng" "\<And>j. dist_ok (D j)"
  shows "\<forall>r \<in> set (fst (spec_blocks rng D n prefix i k uid g)).
           \<exists>j. i \<le> j \<and> j < i + k \<and> draw_ok (D j) (metric r)"
proof (induction k arbitrary: i uid g)
  case 0
  show ?case by simp
next
  case (Suc k)
  obtain vs g1 where a: "draws (rng (D i)) n g = (vs, g1)" by (cases "draws (rng (D i)) n g")
  obtain rest g2 where b: "spec_blocks rng D n prefix (Suc i) k (uid + int n) g1 = (rest, g2)"
    by (cases "spec_blocks rng D n prefix (Suc i) k (uid + int n) g1")
  have v: "\<forall>v \<in> set vs. draw_ok (D i) v"
    using draws_ok[OF assms(1) assms(2)[of i], of n g] a by simp
  have "metric ` set (spec_block prefix i uid vs) = set vs"
    using spec_block_metrics[of prefix i uid vs] by (metis set_map)
  then have h: "\<forall>r \<in> set (spec_block prefix i uid vs). draw_ok (D i) (metric r)"
    using v by auto
  have r: "\<forall>r \<in> set rest. \<exists>j. Suc i \<le> j \<and> j < Suc i + k \<and> draw_ok (D j) (metric r)"
    using Suc[of "Suc i" "uid + int n" g1] b by simp
  show ?case
  proof
    fix x assume "x \<in> set (fst (spec_blocks rng D n prefix i (Suc k) uid g))"
    then have "x \<in> set (spec_block prefix i uid vs) \<or> x \<in> set rest" using a b by simp
    then show "\<exists>j. i \<le> j \<and> j < i + Suc k \<and> draw_ok (D j) (metric x)"
    proof
      assume "x \<in> set (spec_block prefix i uid vs)"
      with h have "draw_ok (D i) (metric x)" by simp
      then show ?thesis by (intro exI[of _ i]) simp
    next
      assume "x \<in> set rest"
      with r obtain j where "Suc i \<le> j" "j < Suc i + k" "draw_ok (D j) (metric x)" by blast
      then show ?thesis by (intro exI[of _ j]) simp
    qed
  qed
qed

section \<open>The requests of the proportion and categorical samplers\<close>

lemma group_weights_ge3: "3 \<le> i \<Longrightarrow> group_weights i = group_weights 3"
  by (simp add: group_weights_def)

lemma spec_weights_ge3: "3 \<le> i \<Longrightarrow> spec_weights i = spec_weights 3"
  by (simp add: spec_weights_def)

lemma sampled_weights_ge3: "3 \<le> i \<Longrightarrow> sampled_weights i = sampled_weights 3"
  by (simp add: sampled_weights_def spec_weights_def)

lemma normalize_weights_sampled:
  assumes "0 \<le> i"
  shows "normalize_weights (group_weights i) = Inr (sampled_weights (nat i))"
proof (cases "3 \<le> i")
  case True
  then have "3 \<le> nat i" by simp
  then have "sampled_weights (nat i) = sampled_weights 3" by (rule sampled_weights_ge3)
  then show ?thesis
    using normalize_3 group_weights_ge3[OF True] by simp
next
  case False
  with assms have "i = 0 \<or> i = 1 \<or> i = 2" by arith
  then show ?thesis using normalize_0 normalize_1 normalize_2 by (elim disjE) simp_all
qed

lemma length_sampled_weights: "length (sampled_weights i) = 6"
  by (simp add: sampled_weights_def spec_weights_def)

lemma take_categories: "take 6 categories = categories"
  by (simp add: categories_def)

lemma categorical_dist_spec:
  assumes "0 \<le> i"
  shows "categorical_dist i = Inr (Choice categories (sampled_weights (nat i)))"
  by (simp add: categorical_dist_def normalize_weights_sampled[OF assms]
      length_sampled_weights take_categories)

lemma flt_0: "flt 0 = 0"
  by (simp add: flt_def round64_def)

lemma flt_values:
  "flt (1 / 10) = 3602879701896397 / 36028797018963968"
  "flt (2 / 10) = 3602879701896397 / 18014398509481984"
  "flt (3 / 10) = 5404319552844595 / 18014398509481984"
  "flt (4 / 10) = 3602879701896397 / 9007199254740992"
  by code_simp+

lemma choice_ok_0: "dist_ok (Choice categories (sampled_weights 0))"
  unfolding sampled_weights_def spec_weights_def categories_def dist_ok_def
  by (simp only: flt_values flt_0 if_True list.map) (simp add: lit_def)

lemma choice_ok_1: "dist_ok (Choice categories (sampled_weights 1))"
  unfolding sampled_weights_def spec_weights_def categories_def dist_ok_def
  by (simp only: flt_values flt_0 list.map) (simp add: lit_def)

lemma choice_ok_2: "dist_ok (Choice categories (sampled_weights 2))"
  unfolding sampled_weights_def spec_weights_def categories_def dist_ok_def
  by (simp only: flt_values flt_0 list.map) (simp add: lit_def)

lemma choice_ok_3: "dist_ok (Choice categories (sampled_weights 3))"
  unfolding sampled_weights_def spec_weights_def categories_def dist_ok_def
  by (simp only: flt_values flt_0 list.map) (simp add: lit_def)

lemma choice_ok: "dist_ok (Choice categories (sampled_weights i))"
proof (cases "3 \<le> i")
  case True
  then have "sampled_weights i = sampled_weights 3" by (rule sampled_weights_ge3)
  then show ?thesis using choice_ok_3 by simp
next
  case False
  then have "i = 0 \<or> i = 1 \<or> i = 2" by arith
  then show ?thesis using choice_ok_0 choice_ok_1 choice_ok_2 by (elim disjE) simp_all
qed

lemma binomial_ok: "dist_ok (Binomial 1 (spec_probability i))"
  using spec_probability_bounds[of i] by (simp add: dist_ok_def)

lemma counter_rng_contract: "numpy_contract counter_rng"
  unfolding numpy_contract_def
proof (intro allI impI)
  fix d :: dist and g :: nat
  assume ok: "dist_ok d"
  show "draw_ok d (fst (counter_rng d g))"
  proof (cases d)
    case (Normal loc scale)
    then show ?thesis by (simp add: draw_ok_def counter_rng_def)
  next
    case (Gamma shape scale)
    then show ?thesis by (simp add: draw_ok_def counter_rng_def)
  next
    case (Binomial n p)
    with ok have n: "0 \<le> n" by (simp add: dist_ok_def)
    then have "int g mod (n + 1) < n + 1" by (intro pos_mod_bound) simp
    moreover have "0 \<le> int g mod (n + 1)" using n by (intro pos_mod_sign) simp
    ultimately show ?thesis using Binomial n by (simp add: draw_ok_def counter_rng_def)
  next
    case (Choice a p)
    with ok have "a \<noteq> []" by (simp add: dist_ok_def)
    then have "a ! (g mod length a) \<in> set a" by simp
    then show ?thesis using Choice by (simp add: draw_ok_def counter_rng_def)
  qed
qed


section \<open>The samplers and their datasets\<close>

lemma continuous_dataset:
  assumes "num_paths \<le> 1114047" "0 \<le> n"
  shows "generate_continuous_data rng num_paths n shape var prefix g =
     Inr (spec_dataset rng (spec_continuous_dist shape var) (nat num_paths) (nat n) prefix g)"
proof -
  have d: "continuous_dist shape var j = Inr (spec_continuous_dist shape var (nat j))
        \<and> dist_ok (spec_continuous_dist shape var (nat j))"
    if "0 \<le> j" "j < num_paths" for j
  proof -
    have "j < 2 ^ 40" using that assms(1) by simp
    then show ?thesis using continuous_dist_spec[OF that(1)] spec_continuous_dist_ok by simp
  qed
  show ?thesis
    unfolding generate_continuous_data_def continuous_loop_eq spec_dataset_def
    by (subst group_loop_spec[where D = "spec_continuous_dist shape var"])
       (use assms d in \<open>simp_all split: prod.splits\<close>)
qed

lemma proportion_dataset:
  assumes "num_paths \<le> 1114047" "0 \<le> n"
  shows "generate_proportion_data rng num_paths n prefix g =
     Inr (spec_dataset rng (\<lambda>i. Binomial 1 (spec_probability i)) (nat num_paths) (nat n) prefix g)"
proof -
  have d: "proportion_dist j = Inr (Binomial 1 (spec_probability (nat j)))
        \<and> dist_ok (Binomial 1 (spec_probability (nat j)))"
    if "0 \<le> j" "j < num_paths" for j
  proof -
    have "j < 2 ^ 40" using that assms(1) by simp
    then show ?thesis using proportion_dist_spec[OF that(1)] binomial_ok by simp
  qed
  show ?thesis
    unfolding generate_proportion_data_def proportion_loop_eq spec_dataset_def
    by (subst group_loop_spec[where D = "\<lambda>i. Binomial 1 (spec_probability i)"])
       (use assms d in \<open>simp_all split: prod.splits\<close>)
qed

lemma categorical_dataset:
  assumes "num_paths \<le> 1114047" "0 \<le> n"
  shows "generate_categorical_data rng num_paths n prefix g =
     Inr (spec_dataset rng (\<lambda>i. Choice categories (sampled_weights i)) (nat num_paths) (nat n)
            prefix g)"
proof -
  have d: "categorical_dist j = Inr (Choice categories (sampled_weights (nat j)))
        \<and> dist_ok (Choice categories (sampled_weights (nat j)))"
    if "0 \<le> j" "j < num_paths" for j
    using categorical_dist_spec[OF that(1)] choice_ok by simp
  show ?thesis
    unfolding generate_categorical_data_def categorical_loop_eq spec_dataset_def
    by (subst group_loop_spec[where D = "\<lambda>i. Choice categories (sampled_weights i)"])
       (use assms d in \<open>simp_all split: prod.splits\<close>)
qed



lemma group_loop_cong:
  assumes "0 \<le> i"
    and "\<And>j. i \<le> j \<Longrightarrow> j < 1114047 \<Longrightarrow> j < num_paths \<Longrightarrow> f j = f' j"
  shows "group_loop f rng num_paths n prefix i data uid g =
         group_loop f' rng num_paths n prefix i data uid g"
  using assms
proof (induction "nat (num_paths - i)" arbitrary: i data uid g)
  case 0
  then have "\<not> i < num_paths" by simp
  then show ?case by (subst group_loop.simps, subst (2) group_loop.simps) simp
next
  case (Suc k)
  then have lt: "i < num_paths" and k: "k = nat (num_paths - (i + 1))" by linarith+
  show ?case
  proof (cases "i < 1114047")
    case True
    have e: "f i = f' i" using Suc.prems(2)[of i] True lt by simp
    have IH: "group_loop f rng num_paths n prefix (i + 1) data' uid' g1 =
              group_loop f' rng num_paths n prefix (i + 1) data' uid' g1" for data' uid' g1
      using Suc.hyps(1)[OF k, of data' uid' g1] Suc.prems by simp
    show ?thesis
      by (subst group_loop.simps, subst (2) group_loop.simps) (simp only: e IH)
  next
    case False
    then have "chr (65 + i) = Inl ValueError" by (simp add: chr_def)
    then show ?thesis
      by (subst group_loop.simps, subst (2) group_loop.simps) (simp add: lt)
  qed
qed

lemma group_loop_negative_size:
  assumes "0 < num_paths" "n < 0" "dist_of 0 = Inr d"
  shows "group_loop dist_of rng num_paths n prefix 0 data uid g = Inl ValueError"
  using assms by (subst group_loop.simps) (simp add: chr_def np_random_def)

lemma group_loop_no_groups:
  assumes "num_paths \<le> i"
  shows "group_loop dist_of rng num_paths n prefix i data uid g = Inr (data, g)"
  using assms by (subst group_loop.simps) simp

lemma spec_blocks_no_draws: "spec_blocks rng D 0 prefix i k uid g = ([], g)"
  by (induction k arbitrary: i) (simp_all add: spec_block_def)

lemma group_loop_metrics:
  assumes c: "numpy_contract rng"
    and d: "\<And>j. 0 \<le> j \<Longrightarrow> dist_of j = Inr (D (nat j))"
    and ok: "\<And>j. dist_ok (D j)"
    and r: "group_loop dist_of rng num_paths n prefix 0 [] 1 g = Inr (df, g')"
  shows "\<forall>r \<in> set df. \<exists>j. draw_ok (D j) (metric r)"
proof (cases "num_paths \<le> 0")
  case True
  then have "df = []" using r group_loop_no_groups[OF True, of dist_of rng n prefix "[]" 1 g]
    by simp
  then show ?thesis by simp
next
  case False
  then have pos: "0 < num_paths" by simp
  have n: "0 \<le> n"
  proof (rule ccontr)
    assume "\<not> 0 \<le> n"
    then have "n < 0" by simp
    have d0: "dist_of 0 = Inr (D 0)" using d[of 0] by simp
    have "group_loop dist_of rng num_paths n prefix 0 [] 1 g = Inl ValueError"
      using pos \<open>n < 0\<close> d0 by (rule group_loop_negative_size)
    with r show False by simp
  qed
  have k: "num_paths \<le> 1114047"
  proof (rule ccontr)
    assume "\<not> num_paths \<le> 1114047"
    then have "1114047 < num_paths" by simp
    have "group_loop dist_of rng num_paths n prefix 0 [] 1 g = Inl ValueError"
    proof (rule group_loop_too_many)
      show "(0::int) \<le> 0" "(0::int) \<le> 1114047" by simp_all
      show "1114047 < num_paths" by fact
      show "0 \<le> n" by fact
      show "\<exists>d. dist_of j = Inr d \<and> dist_ok d" if "0 \<le> j" for j
        using d[OF that] ok by blast
    qed
    with r show False by simp
  qed
  have "group_loop dist_of rng num_paths n prefix 0 [] 1 g =
     (case spec_blocks rng D (nat n) prefix (nat 0) (nat (num_paths - 0)) 1 g of
        (rows, g') \<Rightarrow> Inr ([] @ rows, g'))"
    using d ok by (intro group_loop_spec[OF _ k n]) simp_all
  with r have "df = fst (spec_blocks rng D (nat n) prefix 0 (nat num_paths) 1 g)"
    by (simp split: prod.splits)
  then show ?thesis
    using spec_blocks_metrics[where rng = rng and D = D and n = "nat n" and prefix = prefix
        and i = 0 and k = "nat num_paths" and uid = 1 and g = g, OF c ok] by blast
qed

lemma continuous_requests:
  "generate_continuous_data rng num_paths n shape var prefix g =
     group_loop (\<lambda>i. Inr (spec_continuous_dist shape var (nat i))) rng num_paths n prefix 0 [] 1 g"
  unfolding generate_continuous_data_def continuous_loop_eq
  by (rule group_loop_cong) (simp_all add: continuous_dist_spec)

lemma proportion_requests:
  "generate_proportion_data rng num_paths n prefix g =
     group_loop (\<lambda>i. Inr (Binomial 1 (spec_probability (nat i)))) rng num_paths n prefix 0 [] 1 g"
  unfolding generate_proportion_data_def proportion_loop_eq
  by (rule group_loop_cong) (simp_all add: proportion_dist_spec)

lemma categorical_requests:
  "generate_categorical_data rng num_paths n prefix g =
     group_loop (\<lambda>i. Inr (Choice categories (sampled_weights (nat i)))) rng num_paths n prefix
       0 [] 1 g"
  unfolding generate_categorical_data_def categorical_loop_eq
  by (rule group_loop_cong) (simp_all add: categorical_dist_spec)

lemma spec_table:
  "spec_continuous_dist (lit ''Normal'') (lit ''Equal'') i = Normal 50 10"
  "spec_continuous_dist (lit ''Normal'') (lit ''Unequal'') i
     = Normal (50 + 10 * of_nat i) (10 + 5 * of_nat i)"
  "spec_continuous_dist (lit ''Skewed'') (lit ''Equal'') i = Gamma 2 10"
  "spec_continuous_dist (lit ''Skewed'') (lit ''Unequal'') i
     = Gamma (2 + of_nat i / 2) (10 + 5 * of_nat i)"
  by (simp_all add: spec_continuous_dist_def lit_def)

lemma bernoulli_values:
  "draw_ok (Binomial 1 p) v \<Longrightarrow> v = Integer 0 \<or> v = Integer 1"
  by (cases v) (auto simp: draw_ok_def)





lemma samplers_no_groups:
  assumes "num_paths \<le> 0"
  shows "generate_continuous_data rng num_paths n shape var prefix g = Inr ([], g)"
    and "generate_proportion_data rng num_paths n prefix g = Inr ([], g)"
    and "generate_categorical_data rng num_paths n prefix g = Inr ([], g)"
  using assms
  by (simp_all add: continuous_requests proportion_requests categorical_requests
      group_loop_no_groups)

lemma samplers_no_draws:
  assumes "num_paths \<le> 1114047"
  shows "generate_continuous_data rng num_paths 0 shape var prefix g = Inr ([], g)"
    and "generate_proportion_data rng num_paths 0 prefix g = Inr ([], g)"
    and "generate_categorical_data rng num_paths 0 prefix g = Inr ([], g)"
  using assms
  by (simp_all add: continuous_dataset proportion_dataset categorical_dataset spec_dataset_def
      spec_blocks_no_draws)

lemma samplers_negative_size:
  assumes "0 < num_paths" "n < 0"
  shows "generate_continuous_data rng num_paths n shape var prefix g = Inl ValueError"
    and "generate_proportion_data rng num_paths n prefix g = Inl ValueError"
    and "generate_categorical_data rng num_paths n prefix g = Inl ValueError"
  using assms
  by (simp_all add: continuous_requests proportion_requests categorical_requests
      group_loop_negative_size)


section \<open>The preset table: claims\<close>

lemma presets_dom: "dom presets = {1..20}"
proof -
  have "{1..20::int} = set [1..20]" by simp
  also have "\<dots> = fst ` set presets_items"
    by (simp add: presets_items_def upto.simps del: set_upto)
  finally show ?thesis by (simp only: presets_def dom_map_of_conv_image_fst)
qed

lemma presets_None: "\<not> (1 \<le> k \<and> k \<le> 20) \<Longrightarrow> presets k = None"
  using presets_dom by (auto simp: dom_def)

lemma presets_Some: "1 \<le> k \<Longrightarrow> k \<le> 20 \<Longrightarrow> \<exists>p. presets k = Some p"
  using presets_dom by (auto simp: dom_def)

text \<open>
  Claim C5.  The preset table has exactly the twenty keys 1 to 20, and the entries 1 to 12
  carry the fields of the specification's table, with 1000 samples each; for the Proportion
  and Categorical rows the variance column of the source is the placeholder \<open>"-"\<close>.
  In particular preset 5 is Continuous, Normal, Equal, 4 groups, 1000 samples, ANOVA.
\<close>

theorem presets_table:
  "dom presets = {1..20} \<and> card (dom presets) = 20
   \<and> presets 1 = Some (mk_preset ''Continuous'' ''Normal'' ''Equal'' 2 1000 ''t-test'' ''t-test'')
   \<and> presets 2 = Some (mk_preset ''Continuous'' ''Normal'' ''Unequal'' 2 1000
        ''Welch's t-test'' ''Welch's t-test'')
   \<and> presets 3 = Some (mk_preset ''Continuous'' ''Skewed'' ''Equal'' 2 1000
        ''Mann-Whitney'' ''Mann-Whitney'')
   \<and> presets 4 = Some (mk_preset ''Continuous'' ''Skewed'' ''Unequal'' 2 1000
        ''Mann-Whitney'' ''Mann-Whitney'')
   \<and> presets 5 = Some (mk_preset ''Continuous'' ''Normal'' ''Equal'' 4 1000 ''ANOVA'' ''ANOVA'')
   \<and> presets 6 = Some (mk_preset ''Continuous'' ''Normal'' ''Unequal'' 4 1000
        ''Welch's ANOVA'' ''Welch's ANOVA'')
   \<and> presets 7 = Some (mk_preset ''Continuous'' ''Skewed'' ''Equal'' 4 1000
        ''Kruskal-Wallis'' ''Kruskal-Wallis'')
   \<and> presets 8 = Some (mk_preset ''Continuous'' ''Skewed'' ''Unequal'' 4 1000
        ''Kruskal-Wallis'' ''Kruskal-Wallis'')
   \<and> presets 9 = Some (mk_preset ''Proportion'' ''Binary'' ''-'' 2 1000
        ''Two-Proportion Z-Test'' ''Two-Proportion Z-Test'')
   \<and> presets 10 = Some (mk_preset ''Proportion'' ''Binary'' ''-'' 4 1000
        ''Chi-Square'' ''Chi-Square'')
   \<and> presets 11 = Some (mk_preset ''Categorical'' ''Uniform'' ''-'' 2 1000
        ''Chi-Square'' ''Chi-Square'')
   \<and> presets 12 = Some (mk_preset ''Categorical'' ''Uniform'' ''-'' 4 1000
        ''Chi-Square'' ''Chi-Square'')
   \<and> map_option metric_type (presets 5) = Some (lit ''Continuous'')
   \<and> map_option distribution (presets 5) = Some (lit ''Normal'')
   \<and> map_option variance (presets 5) = Some (lit ''Equal'')
   \<and> map_option paths (presets 5) = Some 4
   \<and> map_option samples (presets 5) = Some 1000
   \<and> map_option expected_test (presets 5) = Some (lit ''ANOVA'')"
proof -
  have "card (dom presets) = 20" by (simp add: presets_dom)
  moreover have "presets 5 = Some (mk_preset ''Continuous'' ''Normal'' ''Equal'' 4 1000 ''ANOVA'' ''ANOVA'')"
    by (simp add: presets_def presets_items_def)
  ultimately show ?thesis
    by (simp add: presets_dom) (simp add: presets_def presets_items_def mk_preset_def)
qed

text \<open>
  Claim C6, as stated, fails at preset 18: its configuration differs from that of preset 7
  (the variance condition is Unequal, not Equal).
\<close>

theorem preset_18_not_7:
  "map_option config_of (presets 18) \<noteq> map_option config_of (presets 7)"
  by (simp add: presets_def presets_items_def mk_preset_def config_of_def lit_def)

text \<open>
  Claim C6, amended.  The presets 13 to 20 repeat the configurations (metric type,
  distribution, variance, number of groups, sample size) of the presets 1, 4, 9, 10, 5, 8,
  10 and 12 respectively; preset 18 is Continuous, Skewed, Unequal with 4 groups, which is
  preset 8, while preset 7 has equal variance.
\<close>

theorem duplicates_table:
  "map_option config_of (presets 13) = map_option config_of (presets 1)
   \<and> map_option config_of (presets 14) = map_option config_of (presets 4)
   \<and> map_option config_of (presets 15) = map_option config_of (presets 9)
   \<and> map_option config_of (presets 16) = map_option config_of (presets 10)
   \<and> map_option config_of (presets 17) = map_option config_of (presets 5)
   \<and> map_option config_of (presets 18) = map_option config_of (presets 8)
   \<and> map_option config_of (presets 19) = map_option config_of (presets 10)
   \<and> map_option config_of (presets 20) = map_option config_of (presets 12)
   \<and> map_option config_of (presets 18)
       = Some (lit ''Continuous'', lit ''Skewed'', lit ''Unequal'', 4, 1000)
   \<and> map_option config_of (presets 7)
       = Some (lit ''Continuous'', lit ''Skewed'', lit ''Equal'', 4, 1000)"
  by (simp add: presets_def presets_items_def mk_preset_def config_of_def)

section \<open>Loading presets: claims\<close>

lemma presets_cases:
  assumes "presets k = Some p"
  shows "(k, p) \<in> set presets_items"
  using assms unfolding presets_def by (rule map_of_SomeD)

text \<open>
  Claim C8, as stated, fails for \<open>load_scenario\<close>: on the unknown id 21 it signals no
  error but returns normally.
\<close>

theorem load_unknown_returns_normally:
  "load_scenario 21 empty_session = Inr empty_session
   \<and> \<not> isl (load_scenario 21 empty_session)"
  by (simp add: load_scenario_def presets_def presets_items_def)

text \<open>
  Claim C8, amended.  For every integer id: when the id is in 1..20 the table has the
  preset, the subscript returns it and \<open>load_scenario\<close> loads its fields into the
  session state; when the id is outside 1..20 the table has no entry, the subscript
  \<open>presets[id]\<close> raises \<open>KeyError\<close>, and \<open>load_scenario\<close>, which tests membership
  first, returns normally and leaves the session state unchanged.
\<close>

theorem load_scenario_lookup:
  "(1 \<le> k \<and> k \<le> 20 \<longrightarrow>
      (\<exists>p. presets k = Some p \<and> presets_getitem k = Inr p
         \<and> (\<exists>st'. load_scenario k st = Inr st'
               \<and> ss_current_scenario st' = Some k
               \<and> ss_num_paths st' = Some (paths p)
               \<and> ss_metric_type st' = Some (metric_type p)
               \<and> ss_sample_size_per_path st' = Some (samples p))))
   \<and> (\<not> (1 \<le> k \<and> k \<le> 20) \<longrightarrow>
        presets k = None \<and> presets_getitem k = Inl KeyError \<and> load_scenario k st = Inr st)"
proof (cases "1 \<le> k \<and> k \<le> 20")
  case True
  then obtain p where p: "presets k = Some p" using presets_Some by blast
  then have g: "presets_getitem k = Inr p" by (simp add: presets_getitem_def)
  show ?thesis using True p g by (simp add: load_scenario_def Let_def)
next
  case False
  then have "presets k = None" by (rule presets_None)
  then show ?thesis using False by (simp add: load_scenario_def presets_getitem_def)
qed

text \<open>
  The amended claim C8 at the ids 5 and 21.
\<close>

theorem load_scenario_lookup_witness:
  "(\<exists>p. presets 5 = Some p \<and> presets_getitem 5 = Inr p
      \<and> (\<exists>st'. load_scenario 5 empty_session = Inr st'
            \<and> ss_current_scenario st' = Some 5
            \<and> ss_num_paths st' = Some (paths p)
            \<and> ss_metric_type st' = Some (metric_type p)
            \<and> ss_sample_size_per_path st' = Some (samples p)))
   \<and> presets 21 = None \<and> presets_getitem 21 = Inl KeyError
   \<and> load_scenario 21 empty_session = Inr empty_session"
  using load_scenario_lookup[of 5 empty_session] load_scenario_lookup[of 21 empty_session]
  by simp

text \<open>
  Claim C9, as stated, fails: after loading preset 1 and then the Proportion preset 9 the
  session state still holds the distribution shape and variance condition of preset 1.
\<close>

theorem stale_shape_after_proportion:
  "map_sum id (\<lambda>st. (ss_metric_type st, ss_distribution_shape st, ss_variance_condition st))
     (load_scenarios [1, 9] empty_session)
   = Inr (Some (lit ''Proportion''), Some (lit ''Normal''), Some (lit ''Equal''))"
  by (simp add: load_scenario_def presets_def presets_items_def presets_getitem_def
        mk_preset_def empty_session_def Let_def lit_def)

text \<open>
  Claim C9, amended.  In the table, the distribution is one of Normal, Skewed and the
  variance one of Equal, Unequal exactly for the Continuous presets (the others carry the
  placeholders Binary, Uniform and \<open>"-"\<close>).  Loading a Continuous preset sets the shape and
  variance of the session state to the preset's; loading a Proportion or Categorical preset
  leaves both as they were, so that they stay unset if they were unset before.
\<close>

theorem load_scenario_shape_variance:
  "(presets k = Some p \<longrightarrow>
      ((distribution p \<in> {lit ''Normal'', lit ''Skewed''}
         \<and> variance p \<in> {lit ''Equal'', lit ''Unequal''})
       \<longleftrightarrow> metric_type p = lit ''Continuous''))
   \<and> (presets k = Some p \<longrightarrow>
        (\<exists>st'. load_scenario k st = Inr st'
           \<and> (if metric_type p = lit ''Continuous''
               then ss_distribution_shape st' = Some (distribution p)
                    \<and> ss_variance_condition st' = Some (variance p)
               else ss_distribution_shape st' = ss_distribution_shape st
                    \<and> ss_variance_condition st' = ss_variance_condition st)))"
proof (intro conjI impI)
  assume p: "presets k = Some p"
  from presets_cases[OF p]
  show "(distribution p \<in> {lit ''Normal'', lit ''Skewed''}
         \<and> variance p \<in> {lit ''Equal'', lit ''Unequal''})
       \<longleftrightarrow> metric_type p = lit ''Continuous''"
    unfolding presets_items_def
    by (auto simp: mk_preset_def lit_def)
next
  assume p: "presets k = Some p"
  then show "\<exists>st'. load_scenario k st = Inr st'
           \<and> (if metric_type p = lit ''Continuous''
               then ss_distribution_shape st' = Some (distribution p)
                    \<and> ss_variance_condition st' = Some (variance p)
               else ss_distribution_shape st' = ss_distribution_shape st
                    \<and> ss_variance_condition st' = ss_variance_condition st)"
    by (simp add: load_scenario_def presets_getitem_def Let_def)
qed

text \<open>
  The amended claim C9 at the presets 9 and 1, loaded into the empty session state.
\<close>

theorem load_scenario_shape_variance_witness:
  "presets 9 = Some (mk_preset ''Proportion'' ''Binary'' ''-'' 2 1000
        ''Two-Proportion Z-Test'' ''Two-Proportion Z-Test'')
   \<and> (\<exists>st'. load_scenario 9 empty_session = Inr st'
         \<and> ss_distribution_shape st' = None \<and> ss_variance_condition st' = None)
   \<and> presets 1 = Some (mk_preset ''Continuous'' ''Normal'' ''Equal'' 2 1000 ''t-test'' ''t-test'')
   \<and> (\<exists>st'. load_scenario 1 empty_session = Inr st'
         \<and> ss_distribution_shape st' = Some (lit ''Normal'')
         \<and> ss_variance_condition st' = Some (lit ''Equal''))"
proof -
  have p9: "presets 9 = Some (mk_preset ''Proportion'' ''Binary'' ''-'' 2 1000
        ''Two-Proportion Z-Test'' ''Two-Proportion Z-Test'')"
    by (simp add: presets_def presets_items_def)
  have p1: "presets 1 = Some (mk_preset ''Continuous'' ''Normal'' ''Equal'' 2 1000 ''t-test'' ''t-test'')"
    by (simp add: presets_def presets_items_def)
  show ?thesis
    using load_scenario_shape_variance[of 9 "mk_preset ''Proportion'' ''Binary'' ''-'' 2 1000
        ''Two-Proportion Z-Test'' ''Two-Proportion Z-Test''" empty_session]
      load_scenario_shape_variance[of 1 "mk_preset ''Continuous'' ''Normal'' ''Equal'' 2 1000
        ''t-test'' ''t-test''" empty_session] p1 p9
    by (simp add: mk_preset_def lit_def empty_session_def)
qed

section \<open>The samplers: claims\<close>




text \<open>
  Claim C2.  In every call of the continuous sampler the request made for group \<open>i\<close> is
  the distribution that the specification tabulates, with \<open>sample_size_per_path\<close> as the
  number of draws: Normal(50, 10) for Normal and Equal, Normal(50 + 10 i, 10 + 5 i) for
  Normal and Unequal, Gamma(2, 10) for Skewed and Equal, Gamma(2 + 0.5 i, 10 + 5 i) for
  Skewed and Unequal; these parameters are exact in floating point.  When the call returns
  (at most 1114047 groups, a sample size that is not negative), the dataset is the one of
  the specification: for each group in turn its draws, stored unchanged as the metric.
\<close>

theorem continuous_draws:
  "generate_continuous_data rng num_paths n shape var prefix g =
     group_loop (\<lambda>i. Inr (spec_continuous_dist shape var (nat i))) rng num_paths n prefix 0 [] 1 g
   \<and> (num_paths \<le> 1114047 \<and> 0 \<le> n \<longrightarrow>
        generate_continuous_data rng num_paths n shape var prefix g =
          Inr (spec_dataset rng (spec_continuous_dist shape var) (nat num_paths) (nat n) prefix g))
   \<and> spec_continuous_dist (lit ''Normal'') (lit ''Equal'') i = Normal 50 10
   \<and> spec_continuous_dist (lit ''Normal'') (lit ''Unequal'') i
       = Normal (50 + 10 * of_nat i) (10 + 5 * of_nat i)
   \<and> spec_continuous_dist (lit ''Skewed'') (lit ''Equal'') i = Gamma 2 10
   \<and> spec_continuous_dist (lit ''Skewed'') (lit ''Unequal'') i
       = Gamma (2 + of_nat i / 2) (10 + 5 * of_nat i)"
  using continuous_requests[of rng num_paths n shape var prefix g]
    continuous_dataset[of num_paths n rng shape var prefix g] spec_table[of i]
  by simp

text \<open>
  Claim C2 for two groups of two rows, Normal and Unequal, with the counter generator.
\<close>

theorem continuous_draws_witness:
  "(2::int) \<le> 1114047 \<and> (0::int) \<le> 2
   \<and> generate_continuous_data counter_rng 2 2 (lit ''Normal'') (lit ''Unequal'') (lit ''Group'') 0
     = Inr ([\<lparr>user_id = 1, group = lit ''Group A'', metric = Float 50\<rparr>,
             \<lparr>user_id = 2, group = lit ''Group A'', metric = Float 60\<rparr>,
             \<lparr>user_id = 3, group = lit ''Group B'', metric = Float 90\<rparr>,
             \<lparr>user_id = 4, group = lit ''Group B'', metric = Float 105\<rparr>], 4)
   \<and> spec_continuous_dist (lit ''Skewed'') (lit ''Unequal'') 3 = Gamma (7 / 2) 25"
proof -
  have e: "spec_dataset counter_rng (spec_continuous_dist (lit ''Normal'') (lit ''Unequal''))
        2 2 (lit ''Group'') 0
     = ([\<lparr>user_id = 1, group = lit ''Group A'', metric = Float 50\<rparr>,
         \<lparr>user_id = 2, group = lit ''Group A'', metric = Float 60\<rparr>,
         \<lparr>user_id = 3, group = lit ''Group B'', metric = Float 90\<rparr>,
         \<lparr>user_id = 4, group = lit ''Group B'', metric = Float 105\<rparr>], 4)"
    by code_simp
  have "(2::int) \<le> 1114047 \<and> (0::int) \<le> 2 \<longrightarrow>
      generate_continuous_data counter_rng 2 2 (lit ''Normal'') (lit ''Unequal'') (lit ''Group'') 0
      = Inr (spec_dataset counter_rng (spec_continuous_dist (lit ''Normal'') (lit ''Unequal''))
               (nat 2) (nat 2) (lit ''Group'') 0)"
    and "spec_continuous_dist (lit ''Skewed'') (lit ''Unequal'') 3
       = Gamma (2 + of_nat 3 / 2) (10 + 5 * of_nat 3)"
    using continuous_draws[of counter_rng 2 2 "lit ''Normal''" "lit ''Unequal''" "lit ''Group''" 0 3]
    by blast+
  then show ?thesis by (simp add: e)
qed



text \<open>
  Claim C3.  In every call of the proportion sampler the request for group \<open>i\<close> is
  \<open>binomial(1, p)\<close> with \<open>p\<close> the float \<open>min(0.3 + 0.2 i, 0.9)\<close>, that is 0.3, 0.5,
  0.7, 0.9 for the groups 0 to 3, with \<open>sample_size_per_path\<close> draws; when the call
  returns, the dataset is that of the specification, and every metric value is the integer
  0 or 1 (given what numpy documents of \<open>binomial\<close>).
\<close>

theorem proportion_draws:
  "generate_proportion_data rng num_paths n prefix g =
     group_loop (\<lambda>i. Inr (Binomial 1 (spec_probability (nat i)))) rng num_paths n prefix 0 [] 1 g
   \<and> (num_paths \<le> 1114047 \<and> 0 \<le> n \<longrightarrow>
        generate_proportion_data rng num_paths n prefix g =
          Inr (spec_dataset rng (\<lambda>i. Binomial 1 (spec_probability i)) (nat num_paths) (nat n)
                 prefix g))
   \<and> spec_probability i = flt (min (3 / 10 + 2 / 10 * of_nat i) (9 / 10))
   \<and> spec_probability 0 = flt (3 / 10) \<and> spec_probability 1 = flt (5 / 10)
   \<and> spec_probability 2 = flt (7 / 10) \<and> spec_probability 3 = flt (9 / 10)
   \<and> (numpy_contract rng \<and> generate_proportion_data rng num_paths n prefix g = Inr (df, g')
        \<longrightarrow> (\<forall>r \<in> set df. metric r = Integer 0 \<or> metric r = Integer 1))"
proof -
  have m: "\<forall>r \<in> set df. metric r = Integer 0 \<or> metric r = Integer 1"
    if c: "numpy_contract rng"
      and r: "generate_proportion_data rng num_paths n prefix g = Inr (df, g')"
  proof -
    have "\<forall>r \<in> set df. \<exists>j. draw_ok (Binomial 1 (spec_probability j)) (metric r)"
      using r unfolding proportion_requests
      by (intro group_loop_metrics[where D = "\<lambda>j. Binomial 1 (spec_probability j)", OF c])
         (simp_all add: binomial_ok)
    then show ?thesis using bernoulli_values by blast
  qed
  have p: "spec_probability 0 = flt (3 / 10)" "spec_probability 1 = flt (5 / 10)"
    "spec_probability 2 = flt (7 / 10)" "spec_probability 3 = flt (9 / 10)"
    by (simp_all add: spec_probability_def)
  show ?thesis
    using proportion_requests[of rng num_paths n prefix g]
      proportion_dataset[of num_paths n rng prefix g] m p
    by (simp add: spec_probability_def)
qed

text \<open>
  Claim C3 for two groups of two rows with the counter generator.
\<close>

theorem proportion_draws_witness:
  "(2::int) \<le> 1114047 \<and> (0::int) \<le> 2 \<and> numpy_contract counter_rng
   \<and> generate_proportion_data counter_rng 2 2 (lit ''Group'') 0
     = Inr ([\<lparr>user_id = 1, group = lit ''Group A'', metric = Integer 0\<rparr>,
             \<lparr>user_id = 2, group = lit ''Group A'', metric = Integer 0\<rparr>,
             \<lparr>user_id = 3, group = lit ''Group B'', metric = Integer 0\<rparr>,
             \<lparr>user_id = 4, group = lit ''Group B'', metric = Integer 1\<rparr>], 4)
   \<and> set (map metric [\<lparr>user_id = 1, group = lit ''Group A'', metric = Integer 0\<rparr>,
             \<lparr>user_id = 2, group = lit ''Group A'', metric = Integer 0\<rparr>,
             \<lparr>user_id = 3, group = lit ''Group B'', metric = Integer 0\<rparr>,
             \<lparr>user_id = 4, group = lit ''Group B'', metric = Integer 1\<rparr>])
       \<subseteq> {Integer 0, Integer 1}"
proof -
  let ?df = "[\<lparr>user_id = 1, group = lit ''Group A'', metric = Integer 0\<rparr>,
             \<lparr>user_id = 2, group = lit ''Group A'', metric = Integer 0\<rparr>,
             \<lparr>user_id = 3, group = lit ''Group B'', metric = Integer 0\<rparr>,
             \<lparr>user_id = 4, group = lit ''Group B'', metric = Integer 1\<rparr>]"
  have e: "spec_dataset counter_rng (\<lambda>i. Binomial 1 (spec_probability i)) 2 2 (lit ''Group'') 0
     = (?df, 4)"
    by code_simp
  note t = proportion_draws[of counter_rng 2 2 "lit ''Group''" 0 0 ?df 4]
  have r: "generate_proportion_data counter_rng 2 2 (lit ''Group'') 0 = Inr (?df, 4)"
  proof -
    from t have "(2::int) \<le> 1114047 \<and> (0::int) \<le> 2 \<longrightarrow>
        generate_proportion_data counter_rng 2 2 (lit ''Group'') 0 =
          Inr (spec_dataset counter_rng (\<lambda>i. Binomial 1 (spec_probability i)) (nat 2) (nat 2)
                 (lit ''Group'') 0)"
      by blast
    then show ?thesis by (simp add: e)
  qed
  have "\<forall>r \<in> set ?df. metric r = Integer 0 \<or> metric r = Integer 1"
    using t r counter_rng_contract by blast
  then have "set (map metric ?df) \<subseteq> {Integer 0, Integer 1}" by auto
  then show ?thesis using r counter_rng_contract by simp
qed




section \<open>Validation: claims\<close>

text \<open>
  Claim C7, as stated, fails for the generation functions: with zero groups, and with two
  groups of zero rows, the continuous sampler raises nothing and returns an empty dataset.
\<close>

theorem samplers_accept_zero:
  "generate_continuous_data counter_rng 0 1000 (lit ''Normal'') (lit ''Equal'') (lit ''Group'') 0
     = Inr ([], 0)
   \<and> generate_continuous_data counter_rng 2 0 (lit ''Normal'') (lit ''Equal'') (lit ''Group'') 0
     = Inr ([], 0)"
  by (simp add: samplers_no_groups samplers_no_draws)

text \<open>
  Claim C7, amended.  Non-positive counts are rejected by \<open>validate_inputs\<close>, not by an
  error of the generation: when the number of groups or the sample size is not positive,
  \<open>validate_inputs\<close> returns a non-empty list of messages (naming the offending input), and
  the generate handler of \<open>main\<close> then shows the messages and calls no sampler, so that no
  dataset, partial or whole, exists.  The samplers themselves make no such check: with no
  group, or with a sample size of zero and at most 1114047 groups, each returns an empty
  dataset without error and without advancing the generator; with a negative sample size
  and at least one group the first numpy call raises \<open>ValueError\<close> before any row is made.
\<close>

theorem nonpositive_counts:
  "(num_paths \<le> 0 \<or> n \<le> 0 \<longrightarrow>
      validate_inputs num_paths n prefix file_name \<noteq> []
      \<and> (num_paths \<le> 0 \<longrightarrow> lit ''Number of Paths must be greater than 0''
            \<in> set (validate_inputs num_paths n prefix file_name))
      \<and> (n \<le> 0 \<longrightarrow> lit ''Sample Size Per Path must be greater than 0''
            \<in> set (validate_inputs num_paths n prefix file_name))
      \<and> generate_button rng num_paths n prefix file_name mtype shape var g
          = Inl (validate_inputs num_paths n prefix file_name))
   \<and> (num_paths \<le> 0 \<or> (n = 0 \<and> num_paths \<le> 1114047) \<longrightarrow>
        generate_continuous_data rng num_paths n shape var prefix g = Inr ([], g)
        \<and> generate_proportion_data rng num_paths n prefix g = Inr ([], g)
        \<and> generate_categorical_data rng num_paths n prefix g = Inr ([], g))
   \<and> (0 < num_paths \<and> n < 0 \<longrightarrow>
        generate_continuous_data rng num_paths n shape var prefix g = Inl ValueError
        \<and> generate_proportion_data rng num_paths n prefix g = Inl ValueError
        \<and> generate_categorical_data rng num_paths n prefix g = Inl ValueError)"
proof (intro conjI impI)
  assume a: "num_paths \<le> 0 \<or> n \<le> 0"
  then show v: "validate_inputs num_paths n prefix file_name \<noteq> []"
    by (auto simp: validate_inputs_def Let_def)
  then show "generate_button rng num_paths n prefix file_name mtype shape var g
          = Inl (validate_inputs num_paths n prefix file_name)"
    by (simp add: generate_button_def Let_def)
next
  assume "num_paths \<le> 0"
  then show "lit ''Number of Paths must be greater than 0''
            \<in> set (validate_inputs num_paths n prefix file_name)"
    by (simp add: validate_inputs_def Let_def)
next
  assume "n \<le> 0"
  then show "lit ''Sample Size Per Path must be greater than 0''
            \<in> set (validate_inputs num_paths n prefix file_name)"
    by (simp add: validate_inputs_def Let_def)
next
  assume a: "num_paths \<le> 0 \<or> n = 0 \<and> num_paths \<le> 1114047"
  show "generate_continuous_data rng num_paths n shape var prefix g = Inr ([], g)"
    using a by (auto simp: samplers_no_groups(1) samplers_no_draws(1))
  show "generate_proportion_data rng num_paths n prefix g = Inr ([], g)"
    using a by (auto simp: samplers_no_groups(2) samplers_no_draws(2))
  show "generate_categorical_data rng num_paths n prefix g = Inr ([], g)"
    using a by (auto simp: samplers_no_groups(3) samplers_no_draws(3))
next
  assume a: "0 < num_paths \<and> n < 0"
  show "generate_continuous_data rng num_paths n shape var prefix g = Inl ValueError"
    using a by (intro samplers_negative_size) simp_all
  show "generate_proportion_data rng num_paths n prefix g = Inl ValueError"
    using a by (intro samplers_negative_size) simp_all
  show "generate_categorical_data rng num_paths n prefix g = Inl ValueError"
    using a by (intro samplers_negative_size) simp_all
qed

text \<open>
  The amended claim C7 at zero groups, at a sample size of zero and at a negative one.
\<close>

theorem nonpositive_counts_witness:
  "((0::int) \<le> 0 \<or> (1000::int) \<le> 0)
   \<and> validate_inputs 0 1000 (lit ''Group'') (lit ''data.csv'')
       = [lit ''Number of Paths must be greater than 0'']
   \<and> generate_button counter_rng 0 1000 (lit ''Group'') (lit ''data.csv'') (lit ''Continuous'')
        (lit ''Normal'') (lit ''Equal'') 0
      = Inl [lit ''Number of Paths must be greater than 0'']
   \<and> generate_proportion_data counter_rng 0 1000 (lit ''Group'') 0 = Inr ([], 0)
   \<and> generate_categorical_data counter_rng 2 0 (lit ''Group'') 0 = Inr ([], 0)
   \<and> generate_continuous_data counter_rng 2 (- 1) (lit ''Normal'') (lit ''Equal'') (lit ''Group'') 0
      = Inl ValueError"
proof -
  have v: "validate_inputs 0 1000 (lit ''Group'') (lit ''data.csv'')
      = [lit ''Number of Paths must be greater than 0'']"
    by (simp add: validate_inputs_def strip_def endswith_def py_isspace_def lit_def)
  have "generate_button counter_rng 0 1000 (lit ''Group'') (lit ''data.csv'') (lit ''Continuous'')
        (lit ''Normal'') (lit ''Equal'') 0
      = Inl (validate_inputs 0 1000 (lit ''Group'') (lit ''data.csv''))"
    and "generate_proportion_data counter_rng 0 1000 (lit ''Group'') 0 = Inr ([], 0)"
    using nonpositive_counts[of 0 1000 "lit ''Group''" "lit ''data.csv''" counter_rng
        "lit ''Continuous''" "lit ''Normal''" "lit ''Equal''" 0]
    by simp_all
  moreover have "generate_categorical_data counter_rng 2 0 (lit ''Group'') 0 = Inr ([], 0)"
    using nonpositive_counts[of 2 0 "lit ''Group''" "lit ''data.csv''" counter_rng
        "lit ''Continuous''" "lit ''Normal''" "lit ''Equal''" 0]
    by simp
  moreover have "generate_continuous_data counter_rng 2 (- 1) (lit ''Normal'') (lit ''Equal'')
      (lit ''Group'') 0 = Inl ValueError"
    using nonpositive_counts[of 2 "- 1" "lit ''Group''" "lit ''data.csv''" counter_rng
        "lit ''Continuous''" "lit ''Normal''" "lit ''Equal''" 0]
    by simp
  ultimately show ?thesis using v by simp
qed

end
